theory Spec2Isabelle
  imports Main
begin

section \<open>SimpleCache (lib/simplecache.py): a two-tier cache for Kodi addons\<close>

text \<open>
  The theory embeds the class \<open>SimpleCache\<close> of \<^verbatim>\<open>lib/simplecache.py\<close>: the
  fingerprint \<open>_get_checksum\<close>, the two tiers (\<open>_get_mem_cache\<close>, \<open>_set_mem_cache\<close>,
  \<open>_get_db_cache\<close>, \<open>_set_db_cache\<close>), the statement adapter \<open>_execute_sql\<close>, the
  public operations \<open>get\<close>, \<open>set\<close>, \<open>close\<close>, \<open>__del__\<close> and the sweep
  \<open>_do_cleanup\<close>.  Leading underscores of the Python names are dropped; \<open>set\<close> is
  called \<open>set_cache\<close> and \<open>__del__\<close> is called \<open>del\<close>.

  Python strings are modelled as \<open>string\<close>: a character stands for the code point
  of the same number, so the strings of the model are those with code points below
  256.  Python integers are \<open>int\<close>.  Exceptions are values of the type \<open>exn\<close>; a
  function that can raise returns \<open>exn + 'a\<close>, with \<open>Inl\<close> for the exception.
\<close>

subsection \<open>Exceptions\<close>

text \<open>
  The subclasses of \<open>Exception\<close> that the modelled code can meet.  \<open>OperationalError\<close>
  is \<open>sqlite3.OperationalError\<close> with its message, \<open>OtherError\<close> any other exception
  raised by a statement, with its message.  \<open>OverflowError\<close> is raised by \<open>datetime\<close>
  arithmetic that leaves the years 1 to 9999.  \<open>Unsupported\<close> is not a Python exception:
  it marks a text outside the literal grammar that \<open>repr\<close> and \<open>json.dumps\<close> emit, for
  which the model does not say what \<open>eval\<close> or \<open>json.loads\<close> do.
\<close>

datatype exn =
    AttributeError
  | TypeError
  | IndexError
  | ValueError
  | OverflowError
  | OperationalError string
  | OtherError string
  | Unsupported

subsection \<open>The fingerprint: \<open>_get_checksum\<close>\<close>

text \<open>
  \<open>ord\<close> is the code point of a character.  \<open>reduce(lambda x, y: x + y, xs)\<close> has
  no initial value: the first element starts the fold, and an empty sequence raises
  \<open>TypeError\<close>.  The class attribute \<open>global_checksum\<close> is \<open>None\<close> unless the addon sets
  it to a string; \<open>None\<close> and the empty string are both false in a condition.  The
  string that is hashed is \<open>"%s-%s" % (global_checksum, stringinput)\<close>, or
  \<open>str(stringinput)\<close> when no global fingerprint is configured.
\<close>

definition ord :: "char \<Rightarrow> int" where
  "ord c = int (of_char c)"

fun reduce_add :: "int list \<Rightarrow> exn + int" where
  "reduce_add [] = Inl TypeError"
| "reduce_add (x # xs) = Inr (foldl (\<lambda>x y. x + y) x xs)"

definition truthy_opt :: "string option \<Rightarrow> bool" where
  "truthy_opt g = (case g of None \<Rightarrow> False | Some t \<Rightarrow> t \<noteq> [])"

definition composed :: "string option \<Rightarrow> string \<Rightarrow> string" where
  "composed g stringinput =
     (if truthy_opt g then the g @ ''-'' @ stringinput else stringinput)"

definition get_checksum :: "string option \<Rightarrow> string \<Rightarrow> exn + int" where
  "get_checksum g stringinput =
     (if stringinput = [] \<and> \<not> truthy_opt g then Inr 0
      else reduce_add (map ord (composed g stringinput)))"

subsection \<open>Cached values and their two encodings\<close>

text \<open>
  The values a caller caches: \<open>None\<close>, booleans, integers, strings, lists and tuples
  (floats, dictionaries and objects are outside the model).
\<close>

datatype pyval =
    PNone
  | PBool bool
  | PInt int
  | PStr string
  | PList "pyval list"
  | PTuple "pyval list"

subsubsection \<open>\<open>repr\<close> and \<open>json.dumps\<close>\<close>

text \<open>
  \<open>str_int\<close> is the decimal text of an integer, \<open>hex2\<close> the two lower-case
  hexadecimal digits of a character code, \<open>join sep xs\<close> is \<open>sep.join(xs)\<close>.
\<close>

definition digit_char :: "nat \<Rightarrow> char" where
  "digit_char n = ''0123456789abcdef'' ! n"

fun str_nat :: "nat \<Rightarrow> string" where
  "str_nat n = (if n < 10 then [digit_char n] else str_nat (n div 10) @ [digit_char (n mod 10)])"

declare str_nat.simps [simp del]

definition str_int :: "int \<Rightarrow> string" where
  "str_int i = (if i < 0 then CHR ''-'' # str_nat (nat (- i)) else str_nat (nat i))"

definition code :: "char \<Rightarrow> nat" where
  "code c = of_char c"

definition hex2 :: "char \<Rightarrow> string" where
  "hex2 c = [digit_char (code c div 16), digit_char (code c mod 16)]"

fun join :: "string \<Rightarrow> string list \<Rightarrow> string" where
  "join sep [] = []"
| "join sep [x] = x"
| "join sep (x # y # ys) = x @ sep @ join sep (y # ys)"

text \<open>
  \<open>repr\<close> of a string: double quotes when the string holds a single quote and no
  double quote, single quotes otherwise; the quote and the backslash are escaped,
  tab, newline and carriage return are written \<open>\t\<close>, \<open>\n\<close>, \<open>\r\<close>, and the
  characters that are not printable (below 32, 127 to 160, 173) as \<open>\xhh\<close>.
  A tuple of one element is written with a trailing comma.
\<close>

definition printable :: "char \<Rightarrow> bool" where
  "printable c = ((32 \<le> code c \<and> code c < 127) \<or> (161 \<le> code c \<and> code c \<noteq> 173))"

definition repr_char :: "char \<Rightarrow> char \<Rightarrow> string" where
  "repr_char q c =
     (if c = q \<or> c = CHR 0x5C then [CHR 0x5C, c]
      else if c = CHR 0x09 then [CHR 0x5C, CHR ''t'']
      else if c = CHR 0x0A then [CHR 0x5C, CHR ''n'']
      else if c = CHR 0x0D then [CHR 0x5C, CHR ''r'']
      else if \<not> printable c then [CHR 0x5C, CHR ''x''] @ hex2 c
      else [c])"

definition repr_str :: "string \<Rightarrow> string" where
  "repr_str s =
     (let q = (if CHR 0x27 \<in> set s \<and> CHR 0x22 \<notin> set s then CHR 0x22 else CHR 0x27)
      in [q] @ concat (map (repr_char q) s) @ [q])"

fun py_repr :: "pyval \<Rightarrow> string" where
  "py_repr PNone = ''None''"
| "py_repr (PBool b) = (if b then ''True'' else ''False'')"
| "py_repr (PInt i) = str_int i"
| "py_repr (PStr s) = repr_str s"
| "py_repr (PList xs) = ''['' @ join '', '' (map py_repr xs) @ '']''"
| "py_repr (PTuple xs) =
     (case map py_repr xs of
        [r] \<Rightarrow> ''('' @ r @ '',)''
      | rs \<Rightarrow> ''('' @ join '', '' rs @ '')'')"

text \<open>
  \<open>json.dumps\<close> with its defaults (\<open>ensure_ascii\<close>, separators \<open>", "\<close>): every
  character outside the range 32 to 126 is written \<open>\u00hh\<close> unless it has a short
  escape; a tuple is written as an array, like a list.
\<close>

definition json_char :: "char \<Rightarrow> string" where
  "json_char c =
     (if c = CHR 0x22 \<or> c = CHR 0x5C then [CHR 0x5C, c]
      else if c = CHR 0x0A then [CHR 0x5C, CHR ''n'']
      else if c = CHR 0x0D then [CHR 0x5C, CHR ''r'']
      else if c = CHR 0x09 then [CHR 0x5C, CHR ''t'']
      else if c = CHR 0x08 then [CHR 0x5C, CHR ''b'']
      else if c = CHR 0x0C then [CHR 0x5C, CHR ''f'']
      else if 32 \<le> code c \<and> code c \<le> 126 then [c]
      else [CHR 0x5C, CHR ''u'', CHR ''0'', CHR ''0''] @ hex2 c)"

definition json_str :: "string \<Rightarrow> string" where
  "json_str s = [CHR 0x22] @ concat (map json_char s) @ [CHR 0x22]"

fun json_dumps :: "pyval \<Rightarrow> string" where
  "json_dumps PNone = ''null''"
| "json_dumps (PBool b) = (if b then ''true'' else ''false'')"
| "json_dumps (PInt i) = str_int i"
| "json_dumps (PStr s) = json_str s"
| "json_dumps (PList xs) = ''['' @ join '', '' (map json_dumps xs) @ '']''"
| "json_dumps (PTuple xs) = ''['' @ join '', '' (map json_dumps xs) @ '']''"

subsubsection \<open>\<open>eval\<close> and \<open>json.loads\<close>\<close>

text \<open>
  Both decoders are a lexer followed by a parser of the literals that the encoders
  emit: names (\<open>None\<close>, \<open>True\<close>, \<open>False\<close> for Python; \<open>null\<close>, \<open>true\<close>, \<open>false\<close> for
  JSON), decimal integers, quoted strings with their escapes, bracketed lists and,
  for Python only, parenthesised expressions and tuples (with the optional trailing
  comma).  Any other text gives \<open>Unsupported\<close>.  The parser takes fuel, one unit per
  call; \<open>decode\<close> gives it twice the number of tokens and two, enough for every text
  that an encoder emits.
\<close>

datatype fmt = Python | Json

datatype token = LBrack | RBrack | LParen | RParen | Comma | TName string | TNum int | TStr string

definition is_digit :: "char \<Rightarrow> bool" where
  "is_digit c = (48 \<le> code c \<and> code c \<le> 57)"

definition is_alpha :: "char \<Rightarrow> bool" where
  "is_alpha c = ((65 \<le> code c \<and> code c \<le> 90) \<or> (97 \<le> code c \<and> code c \<le> 122) \<or> c = CHR ''_'')"

definition is_space :: "fmt \<Rightarrow> char \<Rightarrow> bool" where
  "is_space f c =
     (c = CHR '' '' \<or> (f = Json \<and> (c = CHR 0x09 \<or> c = CHR 0x0A \<or> c = CHR 0x0D)))"

definition is_delim :: "fmt \<Rightarrow> string \<Rightarrow> bool" where
  "is_delim f cs =
     (case cs of [] \<Rightarrow> True
      | c # _ \<Rightarrow> is_space f c \<or> c = CHR '','' \<or> c = CHR '']'' \<or> c = CHR '')'')"

definition hex_val :: "char \<Rightarrow> nat option" where
  "hex_val c =
     (if 48 \<le> code c \<and> code c \<le> 57 then Some (code c - 48)
      else if 97 \<le> code c \<and> code c \<le> 102 then Some (code c - 87)
      else if 65 \<le> code c \<and> code c \<le> 70 then Some (code c - 55)
      else None)"

definition digit_val :: "char \<Rightarrow> nat" where
  "digit_val c = code c - 48"

definition nat_of_digits :: "string \<Rightarrow> nat" where
  "nat_of_digits ds = foldl (\<lambda>a c. 10 * a + digit_val c) 0 ds"

definition chr :: "nat \<Rightarrow> char" where
  "chr n = char_of n"

fun cons_res :: "char \<Rightarrow> (string \<times> string) option \<Rightarrow> (string \<times> string) option" where
  "cons_res c None = None"
| "cons_res c (Some (s, r)) = Some (c # s, r)"

fun py_str_body :: "char \<Rightarrow> string \<Rightarrow> (string \<times> string) option" where
  "py_str_body q [] = None"
| "py_str_body q (c # cs) =
     (if c = q then Some ([], cs)
      else if c = CHR 0x5C then
        (case cs of
           [] \<Rightarrow> None
         | d # ds \<Rightarrow>
             if d = CHR 0x5C \<or> d = CHR 0x27 \<or> d = CHR 0x22 then cons_res d (py_str_body q ds)
             else if d = CHR ''n'' then cons_res (CHR 0x0A) (py_str_body q ds)
             else if d = CHR ''r'' then cons_res (CHR 0x0D) (py_str_body q ds)
             else if d = CHR ''t'' then cons_res (CHR 0x09) (py_str_body q ds)
             else if d = CHR ''x'' then
               (case ds of
                  h1 # h2 # es \<Rightarrow>
                    (case (hex_val h1, hex_val h2) of
                       (Some a, Some b) \<Rightarrow> cons_res (chr (16 * a + b)) (py_str_body q es)
                     | _ \<Rightarrow> None)
                | _ \<Rightarrow> None)
             else None)
      else if code c < 32 then None
      else cons_res c (py_str_body q cs))"

fun json_str_body :: "string \<Rightarrow> (string \<times> string) option" where
  "json_str_body [] = None"
| "json_str_body (c # cs) =
     (if c = CHR 0x22 then Some ([], cs)
      else if c = CHR 0x5C then
        (case cs of
           [] \<Rightarrow> None
         | d # ds \<Rightarrow>
             if d = CHR 0x5C \<or> d = CHR 0x22 \<or> d = CHR ''/'' then cons_res d (json_str_body ds)
             else if d = CHR ''n'' then cons_res (CHR 0x0A) (json_str_body ds)
             else if d = CHR ''r'' then cons_res (CHR 0x0D) (json_str_body ds)
             else if d = CHR ''t'' then cons_res (CHR 0x09) (json_str_body ds)
             else if d = CHR ''b'' then cons_res (CHR 0x08) (json_str_body ds)
             else if d = CHR ''f'' then cons_res (CHR 0x0C) (json_str_body ds)
             else if d = CHR ''u'' then
               (case ds of
                  h1 # h2 # h3 # h4 # es \<Rightarrow>
                    (case (hex_val h1, hex_val h2, hex_val h3, hex_val h4) of
                       (Some a, Some b, Some c, Some d) \<Rightarrow>
                         if a = 0 \<and> b = 0 then cons_res (chr (16 * c + d)) (json_str_body es)
                         else None
                     | _ \<Rightarrow> None)
                | _ \<Rightarrow> None)
             else None)
      else if code c < 32 then None
      else cons_res c (json_str_body cs))"

definition lex_number :: "fmt \<Rightarrow> bool \<Rightarrow> string \<Rightarrow> (token \<times> string) option" where
  "lex_number f neg cs =
     (let ds = takeWhile is_digit cs; rest = dropWhile is_digit cs
      in if ds = [] \<or> (hd ds = CHR ''0'' \<and> length ds > 1) \<or> \<not> is_delim f rest then None
         else Some (TNum (if neg then - int (nat_of_digits ds) else int (nat_of_digits ds)), rest))"

definition lex_name :: "fmt \<Rightarrow> string \<Rightarrow> (token \<times> string) option" where
  "lex_name f cs =
     (let n = takeWhile (\<lambda>c. is_alpha c \<or> is_digit c) cs;
          rest = dropWhile (\<lambda>c. is_alpha c \<or> is_digit c) cs
      in if is_delim f rest then Some (TName n, rest) else None)"

definition lex_string :: "fmt \<Rightarrow> char \<Rightarrow> string \<Rightarrow> (token \<times> string) option" where
  "lex_string f q cs =
     (case f of
        Json \<Rightarrow>
          (if q = CHR 0x22 then map_option (\<lambda>(s, r). (TStr s, r)) (json_str_body cs) else None)
      | Python \<Rightarrow>
          (if take 2 cs = [q, q] then None
           else map_option (\<lambda>(s, r). (TStr s, r)) (py_str_body q cs)))"

definition lex_token :: "fmt \<Rightarrow> char \<Rightarrow> string \<Rightarrow> (token \<times> string) option" where
  "lex_token f c cs =
     (if c = CHR ''['' then Some (LBrack, cs)
      else if c = CHR '']'' then Some (RBrack, cs)
      else if c = CHR ''('' \<and> f = Python then Some (LParen, cs)
      else if c = CHR '')'' \<and> f = Python then Some (RParen, cs)
      else if c = CHR '','' then Some (Comma, cs)
      else if c = CHR 0x22 \<or> c = CHR 0x27 then lex_string f c cs
      else if c = CHR ''-'' then lex_number f True cs
      else if is_digit c then lex_number f False (c # cs)
      else if is_alpha c then lex_name f (c # cs)
      else None)"

function lex :: "fmt \<Rightarrow> string \<Rightarrow> token list option" where
  "lex f [] = Some []"
| "lex f (c # cs) =
     (if is_space f c then lex f cs
      else case lex_token f c cs of
             None \<Rightarrow> None
           | Some (t, rest) \<Rightarrow>
               if length rest \<le> length cs then map_option (\<lambda>ts. t # ts) (lex f rest) else None)"
  by pat_completeness auto
termination
  by (relation "measure (\<lambda>(f, s). length s)") auto
definition name_value :: "fmt \<Rightarrow> string \<Rightarrow> pyval option" where
  "name_value f n =
     (case f of
        Python \<Rightarrow>
          (if n = ''None'' then Some PNone
           else if n = ''True'' then Some (PBool True)
           else if n = ''False'' then Some (PBool False)
           else None)
      | Json \<Rightarrow>
          (if n = ''null'' then Some PNone
           else if n = ''true'' then Some (PBool True)
           else if n = ''false'' then Some (PBool False)
           else None))"

fun parse_value :: "nat \<Rightarrow> fmt \<Rightarrow> token list \<Rightarrow> (pyval \<times> token list) option"
  and parse_items :: "nat \<Rightarrow> fmt \<Rightarrow> token \<Rightarrow> token list \<Rightarrow> (pyval list \<times> bool \<times> token list) option"
where
  "parse_value 0 f ts = None"
| "parse_value (Suc n) f ts =
     (case ts of
        [] \<Rightarrow> None
      | TName x # r \<Rightarrow> map_option (\<lambda>v. (v, r)) (name_value f x)
      | TNum i # r \<Rightarrow> Some (PInt i, r)
      | TStr s # r \<Rightarrow> Some (PStr s, r)
      | LBrack # r \<Rightarrow>
          (case r of
             RBrack # r' \<Rightarrow> Some (PList [], r')
           | _ \<Rightarrow> map_option (\<lambda>(xs, trailing, r'). (PList xs, r')) (parse_items n f RBrack r))
      | LParen # r \<Rightarrow>
          (case r of
             RParen # r' \<Rightarrow> Some (PTuple [], r')
           | _ \<Rightarrow>
               map_option
                 (\<lambda>(xs, trailing, r'). (if length xs = 1 \<and> \<not> trailing then hd xs else PTuple xs, r'))
                 (parse_items n f RParen r))
      | _ \<Rightarrow> None)"
| "parse_items 0 f closer ts = None"
| "parse_items (Suc n) f closer ts =
     (case parse_value n f ts of
        None \<Rightarrow> None
      | Some (x, r) \<Rightarrow>
          (case r of
             [] \<Rightarrow> None
           | t # r' \<Rightarrow>
               if t = closer then Some ([x], False, r')
               else if t = Comma then
                 (case r' of
                    [] \<Rightarrow> None
                  | t2 # r'' \<Rightarrow>
                      if t2 = closer then (if f = Python then Some ([x], True, r'') else None)
                      else map_option (\<lambda>(xs, trailing, r3). (x # xs, trailing, r3))
                             (parse_items n f closer r'))
               else None))"
definition decode :: "fmt \<Rightarrow> string \<Rightarrow> exn + pyval" where
  "decode f text =
     (case lex f text of
        None \<Rightarrow> Inl Unsupported
      | Some ts \<Rightarrow>
          (case parse_value (2 * length ts + 2) f ts of
             Some (v, []) \<Rightarrow> Inr v
           | _ \<Rightarrow> Inl Unsupported))"

definition py_eval :: "string \<Rightarrow> exn + pyval" where
  "py_eval text = decode Python text"

definition json_loads :: "string \<Rightarrow> exn + pyval" where
  "json_loads text = decode Json text"

text \<open>The operations that the tiers apply to a decoded entry: \<open>cachedata[i]\<close>,
  \<open>cachedata[0] > cur_time\<close> and \<open>checksum == cachedata[2]\<close> with \<open>checksum\<close> an
  integer (a boolean compares as 0 or 1).\<close>

fun py_getitem :: "pyval \<Rightarrow> nat \<Rightarrow> exn + pyval" where
  "py_getitem (PList xs) i = (if i < length xs then Inr (xs ! i) else Inl IndexError)"
| "py_getitem (PTuple xs) i = (if i < length xs then Inr (xs ! i) else Inl IndexError)"
| "py_getitem (PStr s) i = (if i < length s then Inr (PStr [s ! i]) else Inl IndexError)"
| "py_getitem v i = Inl TypeError"

fun py_gt :: "pyval \<Rightarrow> int \<Rightarrow> exn + bool" where
  "py_gt (PInt a) t = Inr (a > t)"
| "py_gt (PBool b) t = Inr ((if b then 1 else 0) > t)"
| "py_gt v t = Inl TypeError"

fun py_eq :: "int \<Rightarrow> pyval \<Rightarrow> bool" where
  "py_eq c (PInt a) = (c = a)"
| "py_eq c (PBool b) = (c = (if b then 1 else 0))"
| "py_eq c v = False"

subsection \<open>What the decoders return on encoded values\<close>

text \<open>
  \<open>encode\<close> and \<open>decoded\<close> name the encoder of a format and the value that its
  decoder returns on an encoded value: the value itself for \<open>repr\<close> and \<open>eval\<close>, the
  value with every tuple turned into a list for JSON.  \<open>toks\<close> is the token sequence
  of an encoded value, \<open>need\<close> the fuel that parsing it takes, \<open>starts_value\<close> the
  tokens that can begin a value.
\<close>

fun listify :: "pyval \<Rightarrow> pyval" where
  "listify (PList xs) = PList (map listify xs)"
| "listify (PTuple xs) = PList (map listify xs)"
| "listify v = v"

definition encode :: "fmt \<Rightarrow> pyval \<Rightarrow> string" where
  "encode f v = (case f of Python \<Rightarrow> py_repr v | Json \<Rightarrow> json_dumps v)"

definition decoded :: "fmt \<Rightarrow> pyval \<Rightarrow> pyval" where
  "decoded f v = (case f of Python \<Rightarrow> v | Json \<Rightarrow> listify v)"

fun sep_toks :: "token list list \<Rightarrow> token list" where
  "sep_toks [] = []"
| "sep_toks [t] = t"
| "sep_toks (t # u # us) = t @ Comma # sep_toks (u # us)"

fun toks :: "fmt \<Rightarrow> pyval \<Rightarrow> token list" where
  "toks f PNone = [TName (case f of Python \<Rightarrow> ''None'' | Json \<Rightarrow> ''null'')]"
| "toks f (PBool b) =
     [TName (case f of Python \<Rightarrow> (if b then ''True'' else ''False'')
                     | Json \<Rightarrow> (if b then ''true'' else ''false''))]"
| "toks f (PInt i) = [TNum i]"
| "toks f (PStr s) = [TStr s]"
| "toks f (PList xs) = LBrack # sep_toks (map (toks f) xs) @ [RBrack]"
| "toks f (PTuple xs) =
     (case f of
        Json \<Rightarrow> LBrack # sep_toks (map (toks f) xs) @ [RBrack]
      | Python \<Rightarrow> LParen # sep_toks (map (toks f) xs)
                   @ (if length xs = 1 then [Comma, RParen] else [RParen]))"

fun need :: "pyval \<Rightarrow> nat" where
  "need (PList xs) = Suc (sum_list (map (\<lambda>x. Suc (need x)) xs))"
| "need (PTuple xs) = Suc (sum_list (map (\<lambda>x. Suc (need x)) xs))"
| "need v = 1"

fun starts_value :: "token \<Rightarrow> bool" where
  "starts_value RBrack = False"
| "starts_value RParen = False"
| "starts_value Comma = False"
| "starts_value t = True"

subsection \<open>The state: engine instance, host and store\<close>

text \<open>
  A row of the table \<open>simplecache(id, expires, data, checksum)\<close>, the statements that
  the code issues, and the events that the code leaves in the outside world (log
  lines, statement executions, commits, waits).  \<open>WaitForAbort ms\<close> is a call of
  \<open>Monitor.waitForAbort\<close>, which returns after \<open>ms\<close> milliseconds or as soon as the host
  asks to abort; \<open>Sleep ms\<close> is \<open>xbmc.sleep(ms)\<close>.
\<close>

type_synonym row = "string \<times> int \<times> string \<times> int"

datatype stmt =
    Select string
  | InsertOrReplace string int string int
  | SelectAll
  | Delete string
  | Vacuum

datatype loglevel = LOGDEBUG | LOGWARNING

datatype event =
    Log loglevel string
  | Execute stmt
  | Commit
  | CloseDatabase
  | WaitForAbort nat
  | Sleep nat

text \<open>
  One record for everything the code reads and writes.
  \<^item> \<open>enable_mem_cache\<close>, \<open>data_is_json\<close>, \<open>global_checksum\<close>: the class attributes an
    addon configures.
  \<^item> \<open>exit\<close> is \<open>self._exit\<close>; \<open>win\<close> and \<open>monitor\<close> say whether the instance
    attributes \<open>_win\<close> and \<open>_monitor\<close> are bound (\<open>close\<close> deletes them; the class
    attribute \<open>_win\<close> is \<open>None\<close> and there is no class attribute \<open>_monitor\<close>, so
    using either after that raises \<open>AttributeError\<close>); \<open>database\<close> says whether
    \<open>self._database\<close> holds an open connection.
  \<^item> \<open>busy_tasks\<close> is the class-level list \<open>_busy_tasks\<close>.
  \<^item> \<open>properties\<close> is the property bag of the window 10000; \<open>getProperty\<close> gives
    the empty string for a key that is not set.
  \<^item> \<open>table\<close> holds the rows of the store file in row order, \<open>store_valid\<close> says
    whether the \<open>try\<close> block of \<open>_get_database\<close> (connect, PRAGMAs, validation query)
    goes through, and \<open>recreate_fault\<close> is the exception, if any, that its \<open>except\<close>
    handler (delete the file, connect, \<open>CREATE TABLE\<close>, PRAGMAs) raises.
  \<^item> \<open>aborts\<close> lists the answers of the successive calls of
    \<open>Monitor.abortRequested()\<close>; an exhausted list answers \<open>False\<close>.
  \<^item> \<open>faults\<close> lists the fate of the successive statement executions: \<open>Some exc\<close>
    raises \<open>exc\<close>, \<open>None\<close> and an exhausted list succeed.
  \<^item> \<open>events\<close> records the effects in the order they happen.
\<close>

record state =
  enable_mem_cache :: bool
  data_is_json :: bool
  global_checksum :: "string option"
  exit :: bool
  win :: bool
  monitor :: bool
  database :: bool
  busy_tasks :: "string list"
  properties :: "string \<rightharpoonup> string"
  store_valid :: bool
  recreate_fault :: "exn option"
  table :: "row list"
  aborts :: "bool list"
  faults :: "exn option list"
  events :: "event list"

definition emit :: "event \<Rightarrow> state \<Rightarrow> state" where
  "emit e s = s\<lparr>events := events s @ [e]\<rparr>"

definition log_msg :: "string \<Rightarrow> loglevel \<Rightarrow> state \<Rightarrow> state" where
  "log_msg msg loglevel s = emit (Log loglevel (''Skin Helper Simplecache --> '' @ msg)) s"

definition getProperty :: "state \<Rightarrow> string \<Rightarrow> string" where
  "getProperty s key = (case properties s key of None \<Rightarrow> [] | Some v \<Rightarrow> v)"

definition setProperty :: "string \<Rightarrow> string \<Rightarrow> state \<Rightarrow> state" where
  "setProperty key v s = s\<lparr>properties := (properties s)(key \<mapsto> v)\<rparr>"

definition clearProperty :: "string \<Rightarrow> state \<Rightarrow> state" where
  "clearProperty key s = s\<lparr>properties := (properties s)(key := None)\<rparr>"

definition abortRequested :: "state \<Rightarrow> exn + (bool \<times> state)" where
  "abortRequested s =
     (if \<not> monitor s then Inl AttributeError
      else case aborts s of
             [] \<Rightarrow> Inr (False, s)
           | a # rest \<Rightarrow> Inr (a, s\<lparr>aborts := rest\<rparr>))"

text \<open>
  A \<open>datetime\<close> is modelled by its number of microseconds since the epoch, a
  \<open>timedelta\<close> by a number of microseconds.  The values of \<open>datetime\<close> run from
  0001-01-01 00:00:00 to 9999-12-31 23:59:59.999999; an addition that leaves this
  range raises \<open>OverflowError\<close>.  \<open>_get_timestamp\<close> is
  \<open>int(time.mktime(date_time.timetuple()))\<close>, the whole second of the \<open>datetime\<close> (the
  conversion is taken to succeed on every \<open>datetime\<close>, and the shifts of the local
  time zone are left out).  \<open>this_module\<close> is \<open>__name__\<close>.
\<close>

definition datetime_min :: int where
  "datetime_min = - 62135596800000000"

definition datetime_max :: int where
  "datetime_max = 253402300799999999"

definition datetime_add :: "int \<Rightarrow> int \<Rightarrow> exn + int" where
  "datetime_add date_time delta =
     (if datetime_min \<le> date_time + delta \<and> date_time + delta \<le> datetime_max
      then Inr (date_time + delta) else Inl OverflowError)"

definition get_timestamp :: "int \<Rightarrow> int" where
  "get_timestamp date_time = date_time div 1000000"

definition this_module :: string where
  "this_module = ''simplecache''"

subsection \<open>The persistent store adapter\<close>

text \<open>\<open>str.lower\<close> on the characters of the model, the test \<open>sub in text\<close>, and
  \<open>str(exc)\<close>, the message of an exception.\<close>

definition lower_char :: "char \<Rightarrow> char" where
  "lower_char c =
     (if (65 \<le> code c \<and> code c \<le> 90) \<or> (192 \<le> code c \<and> code c \<le> 222 \<and> code c \<noteq> 215)
      then chr (code c + 32) else c)"

definition lower :: "string \<Rightarrow> string" where
  "lower s = map lower_char s"

fun starts_with :: "string \<Rightarrow> string \<Rightarrow> bool" where
  "starts_with [] s = True"
| "starts_with (p # ps) [] = False"
| "starts_with (p # ps) (c # cs) = (p = c \<and> starts_with ps cs)"

fun contains :: "string \<Rightarrow> string \<Rightarrow> bool" where
  "contains sub [] = (sub = [])"
| "contains sub (c # cs) = (starts_with sub (c # cs) \<or> contains sub cs)"

fun str_exn :: "exn \<Rightarrow> string" where
  "str_exn (OperationalError msg) = msg"
| "str_exn (OtherError msg) = msg"
| "str_exn e = []"

text \<open>
  \<open>_get_database\<close> returns the open connection, or opens one.  Every exception of
  the \<open>try\<close> block is caught: the store is then deleted and created again, empty,
  by the \<open>except\<close> handler, whose own exceptions are not caught and reach the caller.
  A statement that succeeds is executed on the table and committed; a statement
  that raises leaves the table as it is.  (\<open>data\<close> is never a list in this file, so
  the \<open>executemany\<close> branch is not modelled.)
\<close>

definition get_database :: "state \<Rightarrow> exn + state" where
  "get_database s =
     (if database s then Inr s
      else if store_valid s then Inr (s\<lparr>database := True\<rparr>)
      else case recreate_fault s of
             Some exc \<Rightarrow> Inl exc
           | None \<Rightarrow> Inr (s\<lparr>table := [], store_valid := True, database := True\<rparr>))"

fun run_stmt :: "stmt \<Rightarrow> row list \<Rightarrow> row list \<times> row list" where
  "run_stmt (Select key) t = (filter (\<lambda>r. fst r = key) t, t)"
| "run_stmt (InsertOrReplace key expires data checksum) t =
     ([], filter (\<lambda>r. fst r \<noteq> key) t @ [(key, expires, data, checksum)])"
| "run_stmt SelectAll t = (t, t)"
| "run_stmt (Delete key) t = ([], filter (\<lambda>r. fst r \<noteq> key) t)"
| "run_stmt Vacuum t = ([], t)"

definition attempt :: "stmt \<Rightarrow> state \<Rightarrow> (exn + row list) \<times> state" where
  "attempt query s =
     (let s1 = emit (Execute query) (s\<lparr>faults := tl (faults s)\<rparr>)
      in case faults s of
           Some exc # rest \<Rightarrow> (Inl exc, s1)
         | _ \<Rightarrow> (case run_stmt query (table s1) of
                   (result, t) \<Rightarrow> (Inr result, emit Commit (s1\<lparr>table := t\<rparr>))))"

text \<open>The end of \<open>_execute_sql\<close>: \<open>if last_error: self._log_msg(...)\<close>.\<close>

definition report :: "exn option \<Rightarrow> state \<Rightarrow> state" where
  "report last_error s =
     (case last_error of
        None \<Rightarrow> s
      | Some exc \<Rightarrow> log_msg (''_database ERROR ! -- '' @ str_exn exc) LOGWARNING s)"

text \<open>
  The \<open>while\<close> loop of \<open>_execute_sql\<close>, with the values of \<open>retries\<close> and
  \<open>last_error\<close> at the loop head.  It ends after at most ten retries.
  \<open>_execute_sql\<close> itself calls \<open>_get_database\<close> first, outside every \<open>try\<close>.
\<close>

function execute_loop ::
  "stmt \<Rightarrow> nat \<Rightarrow> exn option \<Rightarrow> state \<Rightarrow> exn + (row list option \<times> state)" where
  "execute_loop query retries last_error s =
     (if retries < 10 then
        (case abortRequested s of
           Inl e \<Rightarrow> Inl e
         | Inr (abort, s1) \<Rightarrow>
             if abort then Inr (None, report last_error s1)
             else if exit s1 then Inr (None, s1)
             else
               (case attempt query s1 of
                  (Inr result, s2) \<Rightarrow> Inr (Some result, s2)
                | (Inl exc, s2) \<Rightarrow>
                    (case exc of
                       OperationalError msg \<Rightarrow>
                         if contains ''locked'' (lower msg)
                         then execute_loop query (retries + 1) (Some exc)
                                (emit (WaitForAbort 500) (log_msg ''retrying DB commit...'' LOGDEBUG s2))
                         else Inr (None, report (Some exc) s2)
                     | _ \<Rightarrow> Inr (None, report (Some exc) s2))))
      else Inr (None, report last_error s))"
  by pat_completeness auto
termination
  by (relation "measure (\<lambda>(query, retries, last_error, s). 10 - retries)") auto

declare execute_loop.simps [simp del]

definition execute_sql :: "stmt \<Rightarrow> state \<Rightarrow> exn + (row list option \<times> state)" where
  "execute_sql query s =
     (case get_database s of
        Inl e \<Rightarrow> Inl e
      | Inr s0 \<Rightarrow> execute_loop query 0 None s0)"

subsection \<open>The two tiers\<close>

text \<open>The encoding is chosen by \<open>json_data or self.data_is_json\<close>.\<close>

definition dumps :: "bool \<Rightarrow> state \<Rightarrow> pyval \<Rightarrow> string" where
  "dumps json_data s v = (if json_data \<or> data_is_json s then json_dumps v else py_repr v)"

definition loads :: "bool \<Rightarrow> state \<Rightarrow> string \<Rightarrow> exn + pyval" where
  "loads json_data s text = (if json_data \<or> data_is_json s then json_loads text else py_eval text)"

definition get_mem_cache :: "string \<Rightarrow> int \<Rightarrow> int \<Rightarrow> bool \<Rightarrow> state \<Rightarrow> exn + pyval" where
  "get_mem_cache endpoint checksum cur_time json_data s =
     (if \<not> win s then Inl AttributeError
      else if getProperty s endpoint = [] then Inr PNone
      else
        (case loads json_data s (getProperty s endpoint) of
           Inl e \<Rightarrow> Inl e
         | Inr cachedata \<Rightarrow>
             (case py_getitem cachedata 0 of
                Inl e \<Rightarrow> Inl e
              | Inr expires \<Rightarrow>
                  (case py_gt expires cur_time of
                     Inl e \<Rightarrow> Inl e
                   | Inr fresh \<Rightarrow>
                       if fresh then
                         (if checksum = 0 then py_getitem cachedata 1
                          else
                            (case py_getitem cachedata 2 of
                               Inl e \<Rightarrow> Inl e
                             | Inr stored \<Rightarrow>
                                 if py_eq checksum stored then py_getitem cachedata 1
                                 else Inr PNone))
                       else Inr PNone))))"

definition set_mem_cache ::
  "string \<Rightarrow> int \<Rightarrow> int \<Rightarrow> pyval \<Rightarrow> bool \<Rightarrow> state \<Rightarrow> exn + state" where
  "set_mem_cache endpoint checksum expires data json_data s =
     (let cachedata = PTuple [PInt expires, data, PInt checksum];
          cachedata_str = dumps json_data s cachedata
      in if \<not> win s then Inl AttributeError
         else Inr (setProperty endpoint cachedata_str s))"

definition get_db_cache ::
  "string \<Rightarrow> int \<Rightarrow> int \<Rightarrow> bool \<Rightarrow> state \<Rightarrow> exn + (pyval \<times> state)" where
  "get_db_cache endpoint checksum cur_time json_data s =
     (case execute_sql (Select endpoint) s of
        Inl e \<Rightarrow> Inl e
      | Inr (None, s1) \<Rightarrow> Inr (PNone, s1)
      | Inr (Some cursor, s1) \<Rightarrow>
          (case cursor of
             [] \<Rightarrow> Inr (PNone, s1)
           | (key, expires, data, stored) # others \<Rightarrow>
               if expires > cur_time \<and> (checksum = 0 \<or> stored = checksum) then
                 (case loads json_data s1 data of
                    Inl e \<Rightarrow> Inl e
                  | Inr result \<Rightarrow>
                      if enable_mem_cache s1 then
                        (case set_mem_cache endpoint checksum expires result json_data s1 of
                           Inl e \<Rightarrow> Inl e
                         | Inr s2 \<Rightarrow> Inr (result, s2))
                      else Inr (result, s1))
               else Inr (PNone, s1)))"

definition set_db_cache ::
  "string \<Rightarrow> int \<Rightarrow> int \<Rightarrow> pyval \<Rightarrow> bool \<Rightarrow> state \<Rightarrow> exn + state" where
  "set_db_cache endpoint checksum expires data json_data s =
     (case execute_sql (InsertOrReplace endpoint expires (dumps json_data s data) checksum) s of
        Inl e \<Rightarrow> Inl e
      | Inr (cursor, s1) \<Rightarrow> Inr s1)"

subsection \<open>The public operations \<open>get\<close> and \<open>set\<close>\<close>

text \<open>\<open>now\<close> is the value of \<open>datetime.datetime.now()\<close> read by the call.
  \<open>set\<close> adds \<open>expiration\<close> to it before it looks at \<open>_exit\<close>.
  \<open>list.remove\<close> raises \<open>ValueError\<close> when the element is missing.\<close>

definition get :: "string \<Rightarrow> string \<Rightarrow> bool \<Rightarrow> int \<Rightarrow> state \<Rightarrow> exn + (pyval \<times> state)" where
  "get endpoint checksum json_data now s =
     (case get_checksum (global_checksum s) checksum of
        Inl e \<Rightarrow> Inl e
      | Inr cs \<Rightarrow>
          (let cur_time = get_timestamp now
           in case (if enable_mem_cache s then get_mem_cache endpoint cs cur_time json_data s
                    else Inr PNone) of
                Inl e \<Rightarrow> Inl e
              | Inr result \<Rightarrow>
                  if result = PNone then get_db_cache endpoint cs cur_time json_data s
                  else Inr (result, s)))"

definition list_remove :: "string \<Rightarrow> state \<Rightarrow> exn + state" where
  "list_remove task_name s =
     (if task_name \<in> set (busy_tasks s)
      then Inr (s\<lparr>busy_tasks := remove1 task_name (busy_tasks s)\<rparr>)
      else Inl ValueError)"

definition set_cache ::
  "string \<Rightarrow> pyval \<Rightarrow> string \<Rightarrow> int \<Rightarrow> bool \<Rightarrow> int \<Rightarrow> state \<Rightarrow> exn + state" where
  "set_cache endpoint data checksum expiration json_data now s =
     (let task_name = ''set.'' @ endpoint;
          s1 = s\<lparr>busy_tasks := busy_tasks s @ [task_name]\<rparr>
      in case get_checksum (global_checksum s1) checksum of
           Inl e \<Rightarrow> Inl e
         | Inr cs \<Rightarrow>
             (case datetime_add now expiration of
                Inl e \<Rightarrow> Inl e
              | Inr date_time \<Rightarrow>
                  (let expires = get_timestamp date_time
                   in case (if enable_mem_cache s1 \<and> \<not> exit s1
                            then set_mem_cache endpoint cs expires data json_data s1 else Inr s1) of
                        Inl e \<Rightarrow> Inl e
                      | Inr s2 \<Rightarrow>
                          (case (if \<not> exit s2
                                 then set_db_cache endpoint cs expires data json_data s2
                                 else Inr s2) of
                             Inl e \<Rightarrow> Inl e
                           | Inr s3 \<Rightarrow> list_remove task_name s3))))"

subsection \<open>\<open>close\<close> and \<open>__del__\<close>\<close>

text \<open>
  The loop \<open>while self._busy_tasks and not self._monitor.abortRequested()\<close> of
  \<open>close\<close> may run forever: \<open>close_wait\<close> is a partial function, and \<open>None\<close> means
  that it does not return.  The exceptions of \<open>commit\<close> and \<open>close\<close> on the
  connection are swallowed by the code, so \<open>close_database\<close> cannot raise.
  \<open>del_attrs\<close> is \<open>del self._win; del self._monitor\<close> and the last log line.
\<close>

partial_function (option) close_wait :: "state \<Rightarrow> (exn + state) option" where
  "close_wait s =
     (if busy_tasks s \<noteq> [] then
        (case abortRequested s of
           Inl e \<Rightarrow> Some (Inl e)
         | Inr (abort, s1) \<Rightarrow>
             if abort then Some (Inr s1) else close_wait (emit (Sleep 25) s1))
      else Some (Inr s))"

definition close_database :: "state \<Rightarrow> state" where
  "close_database s =
     (if database s then (emit CloseDatabase (emit Commit s))\<lparr>database := False\<rparr> else s)"

definition del_attrs :: "state \<Rightarrow> exn + state" where
  "del_attrs s =
     (if \<not> win s then Inl AttributeError
      else if \<not> monitor s then Inl AttributeError
      else Inr (log_msg ''Closed'' LOGDEBUG (s\<lparr>win := False, monitor := False\<rparr>)))"

definition close :: "state \<Rightarrow> (exn + state) option" where
  "close s =
     (case close_wait (s\<lparr>exit := True\<rparr>) of
        None \<Rightarrow> None
      | Some (Inl e) \<Rightarrow> Some (Inl e)
      | Some (Inr s1) \<Rightarrow> Some (del_attrs (close_database s1)))"

definition del :: "state \<Rightarrow> (exn + state) option" where
  "del s = (if \<not> exit s then close s else Some (Inr s))"

subsection \<open>The cleanup sweep \<open>_do_cleanup\<close>\<close>

text \<open>
  \<open>cleanup_rows\<close> is the \<open>for\<close> loop over \<open>cursor.fetchall()\<close>; its boolean result
  says whether the loop left the function by its \<open>return\<close>.  \<open>finish_cleanup\<close> is
  the code after the loop.  \<open>repr_cur_time\<close> is the text \<open>repr(cur_time)\<close> of the
  \<open>datetime\<close> read at the start of the sweep.
\<close>

fun cleanup_rows :: "int \<Rightarrow> row list \<Rightarrow> state \<Rightarrow> exn + (bool \<times> state)" where
  "cleanup_rows cur_timestamp [] s = Inr (False, s)"
| "cleanup_rows cur_timestamp ((cache_id, cache_expires, data, checksum) # rest) s =
     (case (if exit s then Inr (True, s) else abortRequested s) of
        Inl e \<Rightarrow> Inl e
      | Inr (stop, s1) \<Rightarrow>
          if stop then Inr (True, s1)
          else if \<not> win s1 then Inl AttributeError
          else
            (let s2 = clearProperty cache_id s1
             in if cache_expires < cur_timestamp then
                  (case execute_sql (Delete cache_id) s2 of
                     Inl e \<Rightarrow> Inl e
                   | Inr (cursor, s3) \<Rightarrow>
                       cleanup_rows cur_timestamp rest
                         (log_msg (''delete from db '' @ cache_id) LOGDEBUG s3))
                else cleanup_rows cur_timestamp rest s2))"

definition finish_cleanup :: "string \<Rightarrow> state \<Rightarrow> exn + state" where
  "finish_cleanup repr_cur_time s =
     (case execute_sql Vacuum s of
        Inl e \<Rightarrow> Inl e
      | Inr (cursor, s1) \<Rightarrow>
          (case list_remove this_module s1 of
             Inl e \<Rightarrow> Inl e
           | Inr s2 \<Rightarrow>
               if \<not> win s2 then Inl AttributeError
               else Inr (log_msg ''Auto cleanup done'' LOGDEBUG
                          (clearProperty ''simplecachecleanbusy''
                            (setProperty ''simplecache.clean.lastexecuted'' repr_cur_time s2)))))"

definition do_cleanup :: "int \<Rightarrow> string \<Rightarrow> state \<Rightarrow> exn + state" where
  "do_cleanup now repr_cur_time s =
     (case (if exit s then Inr (True, s) else abortRequested s) of
        Inl e \<Rightarrow> Inl e
      | Inr (stop, s0) \<Rightarrow>
          if stop then Inr s0
          else
            (let s1 = s0\<lparr>busy_tasks := busy_tasks s0 @ [this_module]\<rparr>;
                 cur_timestamp = get_timestamp now;
                 s2 = log_msg ''Running cleanup...'' LOGDEBUG s1
             in if \<not> win s2 then Inl AttributeError
                else if getProperty s2 ''simplecachecleanbusy'' \<noteq> [] then Inr s2
                else
                  (case execute_sql SelectAll (setProperty ''simplecachecleanbusy'' ''busy'' s2) of
                     Inl e \<Rightarrow> Inl e
                   | Inr (None, s3) \<Rightarrow> finish_cleanup repr_cur_time s3
                   | Inr (Some cursor, s3) \<Rightarrow>
                       (case cleanup_rows cur_timestamp cursor s3 of
                          Inl e \<Rightarrow> Inl e
                        | Inr (returned, s4) \<Rightarrow>
                            if returned then Inr s4 else finish_cleanup repr_cur_time s4))))"

subsection \<open>Observations and example states\<close>

text \<open>
  The failures that \<open>_execute_sql\<close> retries (an \<open>OperationalError\<close> whose lower-cased
  message contains \<open>locked\<close>), the three events of one retry (the failed execution,
  the log line and the wait of 0.5 seconds, which the abort signal cuts short), and
  the number of statement executions recorded in a state.
\<close>

fun locked_error :: "exn \<Rightarrow> bool" where
  "locked_error (OperationalError msg) = contains ''locked'' (lower msg)"
| "locked_error e = False"


fun is_execute :: "event \<Rightarrow> bool" where
  "is_execute (Execute query) = True"
| "is_execute e = False"

definition attempts :: "state \<Rightarrow> nat" where
  "attempts s = length (filter is_execute (events s))"

text \<open>
  The validity test as the specification words it: an entry may be reused when the
  current time is strictly before its expiry and the requested fingerprint is 0 or
  equals the stored one.
\<close>

definition valid_entry :: "int \<Rightarrow> int \<Rightarrow> int \<Rightarrow> int \<Rightarrow> bool" where
  "valid_entry cur_time requested expires stored \<longleftrightarrow>
     cur_time < expires \<and> (requested = 0 \<or> requested = stored)"

text \<open>
  \<open>stored_value\<close> is the value that comes back from the chosen encoding: the value
  itself under \<open>repr\<close> and \<open>eval\<close>, the value with its tuples turned into lists
  under JSON.  \<open>set_then_get\<close> is a \<open>set\<close> at time \<open>now\<close> followed by a \<open>get\<close> of the
  same key, with the same checksum argument and encoding, at time \<open>later\<close>; its
  result is what \<open>get\<close> returns.
\<close>

definition stored_value :: "bool \<Rightarrow> state \<Rightarrow> pyval \<Rightarrow> pyval" where
  "stored_value json_data s v = (if json_data \<or> data_is_json s then listify v else v)"


text \<open>
  An engine in use: window and monitor bound, no connection yet, not shut down,
  the default configuration; around it an empty property bag, an empty, valid
  store, no abort signal and no failing statement.
\<close>

definition example_engine :: state where
  "example_engine =
     \<lparr>enable_mem_cache = True, data_is_json = False, global_checksum = None,
      exit = False, win = True, monitor = True, database = False,
      busy_tasks = [], properties = Map.empty, store_valid = True,
      recreate_fault = None, table = [],
      aborts = [], faults = [], events = []\<rparr>"

text \<open>
  \<open>same_host s s1\<close>: the two states agree on the configuration, the flags of the
  instance, the busy-task list and the property bag (what a statement execution
  leaves alone).
\<close>

definition same_host :: "state \<Rightarrow> state \<Rightarrow> bool" where
  "same_host s s1 \<longleftrightarrow>
     enable_mem_cache s1 = enable_mem_cache s \<and> data_is_json s1 = data_is_json s
     \<and> global_checksum s1 = global_checksum s \<and> exit s1 = exit s \<and> win s1 = win s
     \<and> monitor s1 = monitor s \<and> busy_tasks s1 = busy_tasks s \<and> properties s1 = properties s"


text \<open>
  \<open>same_engine s s1\<close>: the two states differ at most in the abort answers still to
  come and in the recorded events.
\<close>

definition same_engine :: "state \<Rightarrow> state \<Rightarrow> bool" where
  "same_engine s s1 \<longleftrightarrow>
     exit s1 = exit s \<and> win s1 = win s \<and> monitor s1 = monitor s \<and> database s1 = database s
     \<and> busy_tasks s1 = busy_tasks s \<and> properties s1 = properties s \<and> table s1 = table s"

text \<open>
  The example engine over a store with one expired row, where the abort signal
  fires at the third poll (the first poll is the one at the start of the sweep, the
  second the one of \<open>_execute_sql\<close> for the \<open>SELECT\<close>, the third the one of the loop
  over the rows); and the example engine, with an open connection, after \<open>close\<close>.
\<close>

definition aborted_sweep :: state where
  "aborted_sweep = example_engine\<lparr>table := [(''k'', 10, ''1'', 0)], aborts := [False, False, True]\<rparr>"

definition closed_engine :: state where
  "closed_engine =
     example_engine\<lparr>exit := True, win := False, monitor := False,
       events := [Commit, CloseDatabase, Log LOGDEBUG ''Skin Helper Simplecache --> Closed'']\<rparr>"

section \<open>Properties\<close>

subsection \<open>Properties of the fingerprint\<close>

lemma foldl_add_sum_list: "foldl (\<lambda>x y. x + y) (a::int) xs = a + sum_list xs"
  by (induction xs arbitrary: a) simp_all

lemma reduce_add_sum_list: "xs \<noteq> [] \<Longrightarrow> reduce_add xs = Inr (sum_list xs)"
  by (cases xs) (simp_all add: foldl_add_sum_list)

lemma ord_nonneg: "0 \<le> ord c"
  by (simp add: ord_def)

lemma sum_list_ord_nonneg: "0 \<le> sum_list (map ord s)"
  by (induction s) (simp_all add: ord_nonneg)

lemma ord_zero_iff: "ord c = 0 \<longleftrightarrow> c = CHR 0x00"
proof -
  have "(of_char c :: nat) = 0 \<longleftrightarrow> (of_char c :: nat) = of_char (CHR 0x00)" by simp
  also have "\<dots> \<longleftrightarrow> c = CHR 0x00" by (rule of_char_eq_iff)
  finally show ?thesis by (simp add: ord_def)
qed

lemma sum_list_ord_zero_iff:
  "sum_list (map ord s) = 0 \<longleftrightarrow> (\<forall>c \<in> set s. c = CHR 0x00)"
proof (induction s)
  case Nil
  show ?case by simp
next
  case (Cons c s)
  have "ord c + sum_list (map ord s) = 0 \<longleftrightarrow> ord c = 0 \<and> sum_list (map ord s) = 0"
    using ord_nonneg [of c] sum_list_ord_nonneg [of s] by linarith
  with Cons show ?case by (simp add: ord_zero_iff)
qed

lemma composed_nonempty: "\<not> (stringinput = [] \<and> \<not> truthy_opt g) \<Longrightarrow> composed g stringinput \<noteq> []"
  by (auto simp: composed_def)

lemma composed_global_positive:
  assumes "truthy_opt g"
  shows "45 \<le> sum_list (map ord (composed g stringinput))"
proof -
  have "sum_list (map ord (composed g stringinput))
          = sum_list (map ord (the g)) + 45 + sum_list (map ord stringinput)"
    using assms by (simp add: composed_def ord_def)
  then show ?thesis
    using sum_list_ord_nonneg [of "the g"] sum_list_ord_nonneg [of stringinput] by linarith
qed

text \<open>
  Claim C3 as stated fails: the effective checksum is not 0 \<^emph>\<open>exactly\<close> when no
  checksum and no global fingerprint are given.  A caller-supplied checksum made of
  the single character NUL is not empty and hashes to 0.
\<close>

theorem C3_zero_iff_counterexample:
  "\<not> (get_checksum None [CHR 0x00] = Inr 0 \<longleftrightarrow> ([CHR 0x00] = ([]::string) \<and> \<not> truthy_opt None))"
  by (simp add: get_checksum_def composed_def truthy_opt_def ord_def)

text \<open>
  Claim C3, amended.  \<open>_get_checksum\<close> never raises; it returns 0 when the caller
  supplies no checksum and no global fingerprint is configured, and otherwise the sum
  of the character codes of the composed string (the global fingerprint first, a
  hyphen, then the caller's checksum; the caller's checksum alone when no global
  fingerprint is configured).  That sum is 0 only if no global fingerprint is
  configured and every character of the caller's checksum is NUL.
\<close>

theorem C3_get_checksum:
  "get_checksum g stringinput =
     Inr (if stringinput = [] \<and> \<not> truthy_opt g then 0
          else sum_list (map ord (composed g stringinput)))
   \<and> composed g stringinput =
       (if truthy_opt g then the g @ ''-'' @ stringinput else stringinput)
   \<and> (get_checksum g stringinput = Inr 0 \<longleftrightarrow>
        \<not> truthy_opt g \<and> (\<forall>c \<in> set stringinput. c = CHR 0x00))"
proof (intro conjI)
  show val: "get_checksum g stringinput =
     Inr (if stringinput = [] \<and> \<not> truthy_opt g then 0
          else sum_list (map ord (composed g stringinput)))"
    using composed_nonempty [of stringinput g]
    by (simp add: get_checksum_def reduce_add_sum_list)
  show "composed g stringinput =
       (if truthy_opt g then the g @ ''-'' @ stringinput else stringinput)"
    by (simp add: composed_def)
  show "get_checksum g stringinput = Inr 0 \<longleftrightarrow>
        \<not> truthy_opt g \<and> (\<forall>c \<in> set stringinput. c = CHR 0x00)"
  proof (cases "truthy_opt g")
    case True
    then show ?thesis
      using composed_global_positive [of g stringinput] by (simp add: val)
  next
    case False
    then show ?thesis
      by (simp add: val composed_def sum_list_ord_zero_iff)
  qed
qed

theorem C3_get_checksum_witness:
  "get_checksum (Some ''v2'') ''ab'' = Inr 408
   \<and> composed (Some ''v2'') ''ab'' = ''v2-ab''
   \<and> get_checksum None ''ab'' = Inr 195
   \<and> get_checksum None '''' = Inr 0"
  using C3_get_checksum [of "Some ''v2''" "''ab''"] C3_get_checksum [of None "''ab''"]
    C3_get_checksum [of None "''''"]
  by (simp add: composed_def truthy_opt_def ord_def)

subsection \<open>Shared facts\<close>

lemma get_checksum_total: "\<exists>cs. get_checksum g c = Inr cs"
  by (cases "composed g c") (auto simp: get_checksum_def composed_def split: if_splits)


subsection \<open>Decoding an encoded value\<close>

lemma code_less_256: "code c < 256"
  by (simp add: code_def)

lemma chr_code [simp]: "chr (code c) = c"
  by (simp add: chr_def code_def)

lemma digit_char_facts:
  "\<forall>d<10. is_digit (digit_char d) \<and> digit_val (digit_char d) = d
            \<and> (digit_char d = CHR ''0'' \<longrightarrow> d = 0)"
  by (simp add: eval_nat_numeral All_less_Suc digit_char_def is_digit_def digit_val_def code_def)

lemma hex_digit_facts: "\<forall>d<16. hex_val (digit_char d) = Some d"
  by (simp add: eval_nat_numeral All_less_Suc digit_char_def hex_val_def code_def)

lemma hex2_parse:
  "hex_val (digit_char (code c div 16)) = Some (code c div 16)"
  "hex_val (digit_char (code c mod 16)) = Some (code c mod 16)"
  using hex_digit_facts code_less_256 [of c] by (simp_all add: less_mult_imp_div_less)

lemma str_nat_nonempty [simp]: "str_nat n \<noteq> []"
  by (subst str_nat.simps) simp

lemma str_nat_digits: "c \<in> set (str_nat n) \<Longrightarrow> is_digit c"
proof (induction n rule: str_nat.induct)
  case (1 n)
  show ?case
  proof (cases "n < 10")
    case True
    then show ?thesis using "1.prems" digit_char_facts by (subst (asm) str_nat.simps) simp
  next
    case False
    then have "c \<in> set (str_nat (n div 10)) \<or> c = digit_char (n mod 10)"
      using "1.prems" by (subst (asm) str_nat.simps) auto
    then show ?thesis using "1.IH" [OF False] digit_char_facts by auto
  qed
qed

lemma nat_of_digits_snoc: "nat_of_digits (ds @ [c]) = 10 * nat_of_digits ds + digit_val c"
  by (simp add: nat_of_digits_def)

lemma nat_of_digits_str_nat: "nat_of_digits (str_nat n) = n"
proof (induction n rule: str_nat.induct)
  case (1 n)
  show ?case
  proof (cases "n < 10")
    case True
    then show ?thesis using digit_char_facts
      by (subst str_nat.simps) (simp add: nat_of_digits_def)
  next
    case False
    then show ?thesis using "1.IH" [OF False] digit_char_facts
      by (subst str_nat.simps) (simp add: nat_of_digits_snoc)
  qed
qed

lemma str_nat_leading: "0 < n \<Longrightarrow> hd (str_nat n) \<noteq> CHR ''0''"
proof (induction n rule: str_nat.induct)
  case (1 n)
  show ?case
  proof (cases "n < 10")
    case True
    then show ?thesis using "1.prems" digit_char_facts by (subst str_nat.simps) auto
  next
    case False
    then have "0 < n div 10" by simp
    then show ?thesis using "1.IH" [OF False] False
      by (subst str_nat.simps) simp
  qed
qed

lemma str_nat_canonical: "\<not> (hd (str_nat n) = CHR ''0'' \<and> length (str_nat n) > 1)"
proof (cases "n = 0")
  case True
  then show ?thesis by (subst (2) str_nat.simps) simp
next
  case False
  then show ?thesis using str_nat_leading [of n] by simp
qed

lemma delim_not_digit: "is_delim f rest \<Longrightarrow> takeWhile is_digit rest = [] \<and> dropWhile is_digit rest = rest"
  by (cases rest) (auto simp: is_delim_def is_space_def is_digit_def code_def)

lemma delim_not_alnum:
  "is_delim f rest \<Longrightarrow> takeWhile (\<lambda>c. is_alpha c \<or> is_digit c) rest = []
      \<and> dropWhile (\<lambda>c. is_alpha c \<or> is_digit c) rest = rest"
  by (cases rest) (auto simp: is_delim_def is_space_def is_digit_def is_alpha_def code_def)

lemma lex_number_str_nat:
  assumes "is_delim f rest"
  shows "lex_number f neg (str_nat n @ rest) = Some (TNum (if neg then - int n else int n), rest)"
proof -
  have t: "takeWhile is_digit (str_nat n @ rest) = str_nat n"
    using delim_not_digit [OF assms] str_nat_digits by (simp add: takeWhile_append2)
  have d: "dropWhile is_digit (str_nat n @ rest) = rest"
    using delim_not_digit [OF assms] str_nat_digits by (simp add: dropWhile_append2)
  show ?thesis
    using assms str_nat_canonical [of n]
    by (simp add: lex_number_def t d Let_def nat_of_digits_str_nat)
qed

lemma code_div_mod: "16 * (code c div 16) + code c mod 16 = code c"
  by simp

lemma printable_ge: "printable c \<Longrightarrow> \<not> code c < 32"
  by (auto simp: printable_def)

lemma hex_zero: "hex_val (CHR ''0'') = Some 0"
  by (simp add: hex_val_def code_def)

lemma py_body_char:
  assumes "q = CHR 0x27 \<or> q = CHR 0x22"
  shows "py_str_body q (repr_char q c @ tail) = cons_res c (py_str_body q tail)"
proof -
  consider (esc) "c = q \<or> c = CHR 0x5C"
    | (tab) "c = CHR 0x09" | (nl) "c = CHR 0x0A" | (cr) "c = CHR 0x0D"
    | (hex) "\<not> (c = q \<or> c = CHR 0x5C)" "c \<noteq> CHR 0x09" "c \<noteq> CHR 0x0A" "c \<noteq> CHR 0x0D" "\<not> printable c"
    | (raw) "\<not> (c = q \<or> c = CHR 0x5C)" "c \<noteq> CHR 0x09" "c \<noteq> CHR 0x0A" "c \<noteq> CHR 0x0D" "printable c"
    by blast
  then show ?thesis
  proof cases
    case esc
    then show ?thesis using assms by (auto simp: repr_char_def)
  next
    case tab
    then show ?thesis using assms by (auto simp: repr_char_def)
  next
    case nl
    then show ?thesis using assms by (auto simp: repr_char_def)
  next
    case cr
    then show ?thesis using assms by (auto simp: repr_char_def)
  next
    case hex
    then show ?thesis using assms
      by (auto simp: repr_char_def hex2_def hex2_parse code_div_mod)
  next
    case raw
    then show ?thesis using assms printable_ge [of c]
      by (auto simp: repr_char_def)
  qed
qed

lemma py_str_body_repr:
  assumes "q = CHR 0x27 \<or> q = CHR 0x22"
  shows "py_str_body q (concat (map (repr_char q) s) @ q # rest) = Some (s, rest)"
proof (induction s)
  case Nil
  show ?case by simp
next
  case (Cons c s)
  have "py_str_body q (repr_char q c @ (concat (map (repr_char q) s) @ q # rest))
          = cons_res c (py_str_body q (concat (map (repr_char q) s) @ q # rest))"
    by (rule py_body_char [OF assms])
  with Cons show ?case by simp
qed

lemma json_body_char:
  "json_str_body (json_char c @ tail) = cons_res c (json_str_body tail)"
proof -
  consider (esc) "c = CHR 0x22 \<or> c = CHR 0x5C"
    | (nl) "c = CHR 0x0A" | (cr) "c = CHR 0x0D" | (tab) "c = CHR 0x09"
    | (bs) "c = CHR 0x08" | (ff) "c = CHR 0x0C"
    | (raw) "\<not> (c = CHR 0x22 \<or> c = CHR 0x5C)" "32 \<le> code c \<and> code c \<le> 126"
    | (uni) "\<not> (c = CHR 0x22 \<or> c = CHR 0x5C)" "c \<noteq> CHR 0x0A" "c \<noteq> CHR 0x0D" "c \<noteq> CHR 0x09"
        "c \<noteq> CHR 0x08" "c \<noteq> CHR 0x0C" "\<not> (32 \<le> code c \<and> code c \<le> 126)"
    by blast
  then show ?thesis
  proof cases
    case esc
    then show ?thesis by (auto simp: json_char_def)
  next
    case nl
    then show ?thesis by (auto simp: json_char_def)
  next
    case cr
    then show ?thesis by (auto simp: json_char_def)
  next
    case tab
    then show ?thesis by (auto simp: json_char_def)
  next
    case bs
    then show ?thesis by (auto simp: json_char_def)
  next
    case ff
    then show ?thesis by (auto simp: json_char_def)
  next
    case raw
    then have "c \<noteq> CHR 0x0A \<and> c \<noteq> CHR 0x0D \<and> c \<noteq> CHR 0x09 \<and> c \<noteq> CHR 0x08 \<and> c \<noteq> CHR 0x0C"
      by (auto simp: code_def)
    then show ?thesis using raw by (auto simp: json_char_def)
  next
    case uni
    then show ?thesis
      by (auto simp: json_char_def hex2_def hex2_parse hex_zero code_div_mod)
  qed
qed

lemma json_str_body_dumps:
  "json_str_body (concat (map json_char s) @ CHR 0x22 # rest) = Some (s, rest)"
proof (induction s)
  case Nil
  show ?case by simp
next
  case (Cons c s)
  have "json_str_body (json_char c @ (concat (map json_char s) @ CHR 0x22 # rest))
          = cons_res c (json_str_body (concat (map json_char s) @ CHR 0x22 # rest))"
    by (rule json_body_char)
  with Cons show ?case by simp
qed

lemma lex_single:
  "lex f (CHR ''['' # cs) = map_option (Cons LBrack) (lex f cs)"
  "lex f (CHR '']'' # cs) = map_option (Cons RBrack) (lex f cs)"
  "lex f (CHR '','' # cs) = map_option (Cons Comma) (lex f cs)"
  "lex Python (CHR ''('' # cs) = map_option (Cons LParen) (lex Python cs)"
  "lex Python (CHR '')'' # cs) = map_option (Cons RParen) (lex Python cs)"
  "lex f (CHR '' '' # cs) = lex f cs"
  by (simp_all add: is_space_def lex_token_def)

lemma delim_intro [simp]:
  "is_delim f (CHR '','' # cs)" "is_delim f (CHR '']'' # cs)" "is_delim f (CHR '')'' # cs)"
  "is_delim f []"
  by (simp_all add: is_delim_def)

lemma lex_keyword_python:
  assumes "is_delim Python rest"
  shows "lex Python (''None'' @ rest) = map_option (Cons (TName ''None'')) (lex Python rest)"
    and "lex Python (''True'' @ rest) = map_option (Cons (TName ''True'')) (lex Python rest)"
    and "lex Python (''False'' @ rest) = map_option (Cons (TName ''False'')) (lex Python rest)"
  using delim_not_alnum [OF assms] assms
  by (simp_all add: is_space_def lex_token_def lex_name_def is_digit_def is_alpha_def code_def)

lemma lex_keyword_json:
  assumes "is_delim Json rest"
  shows "lex Json (''null'' @ rest) = map_option (Cons (TName ''null'')) (lex Json rest)"
    and "lex Json (''true'' @ rest) = map_option (Cons (TName ''true'')) (lex Json rest)"
    and "lex Json (''false'' @ rest) = map_option (Cons (TName ''false'')) (lex Json rest)"
  using delim_not_alnum [OF assms] assms
  by (simp_all add: is_space_def lex_token_def lex_name_def is_digit_def is_alpha_def code_def)

lemma digit_not_special:
  assumes "is_digit d"
  shows "\<not> is_space f d" "lex_token f d cs = lex_number f False (d # cs)"
proof -
  have ne: "d \<noteq> CHR ''[''" "d \<noteq> CHR '']''" "d \<noteq> CHR ''(''" "d \<noteq> CHR '')''" "d \<noteq> CHR '',''"
    "d \<noteq> CHR 0x22" "d \<noteq> CHR 0x27" "d \<noteq> CHR ''-''" "d \<noteq> CHR '' ''"
    "d \<noteq> CHR 0x09" "d \<noteq> CHR 0x0A" "d \<noteq> CHR 0x0D"
    using assms by (auto simp: is_digit_def code_def)
  show "\<not> is_space f d" using ne by (simp add: is_space_def)
  show "lex_token f d cs = lex_number f False (d # cs)"
    using ne assms by (simp add: lex_token_def)
qed

lemma lex_step:
  "\<not> is_space f c \<Longrightarrow> lex_token f c cs = Some (t, rest) \<Longrightarrow> length rest \<le> length cs \<Longrightarrow>
     lex f (c # cs) = map_option (Cons t) (lex f rest)"
  by simp

lemma lex_int:
  assumes "is_delim f rest"
  shows "lex f (str_int i @ rest) = map_option (Cons (TNum i)) (lex f rest)"
proof (cases "i < 0")
  case True
  have "lex_token f (CHR ''-'') (str_nat (nat (- i)) @ rest) = Some (TNum i, rest)"
    using lex_number_str_nat [OF assms, of True "nat (- i)"] True
    by (simp add: lex_token_def)
  then have "lex f (CHR ''-'' # (str_nat (nat (- i)) @ rest)) = map_option (Cons (TNum i)) (lex f rest)"
    by (intro lex_step) (simp_all add: is_space_def)
  then show ?thesis using True by (simp only: str_int_def if_True append_Cons)
next
  case False
  obtain d ds where ds: "str_nat (nat i) = d # ds"
    using str_nat_nonempty [of "nat i"] by (cases "str_nat (nat i)") auto
  have "d \<in> set (str_nat (nat i))" by (simp only: ds list.set_intros)
  then have "is_digit d" by (rule str_nat_digits)
  note dn = digit_not_special [OF this]
  have "lex_number f False (str_nat (nat i) @ rest) = Some (TNum i, rest)"
    using lex_number_str_nat [OF assms, of False "nat i"] False by simp
  then have "lex_token f d (ds @ rest) = Some (TNum i, rest)"
    by (simp only: dn(2) ds append_Cons)
  then have "lex f (d # (ds @ rest)) = map_option (Cons (TNum i)) (lex f rest)"
    using dn(1) by (intro lex_step) simp_all
  then show ?thesis using False by (simp only: str_int_def if_False ds append_Cons)
qed

lemma lex_py_str:
  assumes "is_delim Python rest"
  shows "lex Python (repr_str s @ rest) = map_option (Cons (TStr s)) (lex Python rest)"
proof -
  define q where "q = (if CHR 0x27 \<in> set s \<and> CHR 0x22 \<notin> set s then CHR 0x22 else CHR 0x27)"
  have q: "q = CHR 0x27 \<or> q = CHR 0x22" by (simp add: q_def)
  let ?body = "concat (map (repr_char q) s) @ q # rest"
  have text_eq: "repr_str s @ rest = q # ?body"
    by (simp add: repr_str_def q_def Let_def)
  have rest_q: "rest = [] \<or> hd rest \<noteq> q"
    using assms q by (cases rest) (auto simp: is_delim_def is_space_def)
  have no_triple: "take 2 ?body \<noteq> [q, q]"
  proof (cases s)
    case Nil
    then show ?thesis using rest_q by (cases rest) auto
  next
    case (Cons c s')
    have "hd (repr_char q c) \<noteq> q \<and> repr_char q c \<noteq> []"
      using q by (auto simp: repr_char_def)
    then show ?thesis using Cons by (cases "repr_char q c") auto
  qed
  have "lex_token Python q ?body = Some (TStr s, rest)"
    using q no_triple py_str_body_repr [OF q, of s rest]
    by (auto simp: lex_token_def lex_string_def)
  moreover have "\<not> is_space Python q" using q by (auto simp: is_space_def)
  ultimately have "lex Python (q # ?body) = map_option (Cons (TStr s)) (lex Python rest)"
    by (intro lex_step) simp_all
  then show ?thesis by (simp only: text_eq)
qed

lemma lex_json_str:
  "lex Json (json_str s @ rest) = map_option (Cons (TStr s)) (lex Json rest)"
proof -
  let ?body = "concat (map json_char s) @ CHR 0x22 # rest"
  have "lex_token Json (CHR 0x22) ?body = Some (TStr s, rest)"
    using json_str_body_dumps [of s rest] by (simp add: lex_token_def lex_string_def)
  then have "lex Json (CHR 0x22 # ?body) = map_option (Cons (TStr s)) (lex Json rest)"
    by (intro lex_step) (simp_all add: is_space_def)
  then show ?thesis by (simp add: json_str_def)
qed

lemma map_option_append:
  "map_option (\<lambda>r. xs @ r) (map_option (\<lambda>r. ys @ r) r0) = map_option (\<lambda>r. xs @ ys @ r) r0"
  "map_option (Cons t) (map_option (\<lambda>r. ys @ r) r0) = map_option (\<lambda>r. t # ys @ r) r0"
  "map_option (\<lambda>r. xs @ r) (map_option (Cons t) r0) = map_option (\<lambda>r. xs @ t # r) r0"
  by (cases r0; simp)+

lemma lex_join:
  assumes elems: "\<And>x rest. x \<in> set xs \<Longrightarrow> is_delim f rest \<Longrightarrow>
                    lex f (enc x @ rest) = map_option (\<lambda>r. tk x @ r) (lex f rest)"
    and "is_delim f rest"
  shows "lex f (join '', '' (map enc xs) @ rest)
           = map_option (\<lambda>r. sep_toks (map tk xs) @ r) (lex f rest)"
  using assms
proof (induction xs rule: induct_list012)
  case 1
  then show ?case by (cases "lex f rest") simp_all
next
  case (2 x)
  then show ?case by simp
next
  case (3 x y zs)
  let ?R = "join '', '' (map enc (y # zs)) @ rest"
  have r: "lex f ?R = map_option (\<lambda>r. sep_toks (map tk (y # zs)) @ r) (lex f rest)"
    using "3.prems" by (intro "3.IH"(2)) auto
  have e1: "lex f (enc x @ (CHR '','' # CHR '' '' # ?R))
          = map_option (\<lambda>r. tk x @ r) (lex f (CHR '','' # CHR '' '' # ?R))"
    using "3.prems"(1) [of x "CHR '','' # CHR '' '' # ?R"] by simp
  have e2: "lex f (CHR '','' # CHR '' '' # ?R) = map_option (Cons Comma) (lex f ?R)"
    by (simp only: lex_single)
  have "lex f (enc x @ (CHR '','' # CHR '' '' # ?R))
      = map_option (\<lambda>r. tk x @ Comma # sep_toks (map tk (y # zs)) @ r) (lex f rest)"
    unfolding e1 e2 r by (cases "lex f rest") simp_all
  then show ?case by simp
qed

lemma lex_brackets:
  assumes "lex f (body @ CHR '']'' # rest) = map_option (\<lambda>r. ts @ r) (lex f (CHR '']'' # rest))"
  shows "lex f (''['' @ body @ '']'' @ rest) = map_option (\<lambda>r. (LBrack # ts @ [RBrack]) @ r) (lex f rest)"
proof -
  have "lex f (''['' @ body @ '']'' @ rest) = map_option (Cons LBrack) (lex f (body @ CHR '']'' # rest))"
    by (simp only: lex_single append_Cons append_Nil)
  also have "\<dots> = map_option (Cons LBrack) (map_option (\<lambda>r. ts @ r) (map_option (Cons RBrack) (lex f rest)))"
    by (simp only: assms lex_single)
  finally show ?thesis by (cases "lex f rest") simp_all
qed

lemma lex_parens:
  assumes "lex Python (body @ close_text @ rest) = map_option (\<lambda>r. ts @ r) (lex Python (close_text @ rest))"
    and "close_text = '')'' \<and> close_toks = [RParen] \<or> close_text = '',)'' \<and> close_toks = [Comma, RParen]"
  shows "lex Python (''('' @ body @ close_text @ rest)
           = map_option (\<lambda>r. (LParen # ts @ close_toks) @ r) (lex Python rest)"
proof -
  have c: "lex Python (close_text @ rest) = map_option (\<lambda>r. close_toks @ r) (lex Python rest)"
    using assms(2) by (cases "lex Python rest") (auto simp only: lex_single append_Cons append_Nil option.map)
  have "lex Python (''('' @ body @ close_text @ rest)
          = map_option (Cons LParen) (lex Python (body @ close_text @ rest))"
    by (simp only: lex_single append_Cons append_Nil)
  also have "\<dots> = map_option (Cons LParen) (map_option (\<lambda>r. ts @ r) (map_option (\<lambda>r. close_toks @ r) (lex Python rest)))"
    by (simp only: assms(1) c)
  finally show ?thesis by (cases "lex Python rest") simp_all
qed

lemma lex_encode:
  "is_delim f rest \<Longrightarrow> lex f (encode f v @ rest) = map_option (\<lambda>r. (toks f v) @ r) (lex f rest)"
proof (induction v arbitrary: rest)
  case PNone
  then show ?case
    using lex_keyword_python [of rest] lex_keyword_json [of rest]
    by (cases f) (simp_all add: encode_def)
next
  case (PBool b)
  then show ?case
    using lex_keyword_python [of rest] lex_keyword_json [of rest]
    by (cases f; cases b) (simp_all add: encode_def)
next
  case (PInt i)
  then show ?case using lex_int [of f rest i] by (cases f) (simp_all add: encode_def)
next
  case (PStr s)
  then show ?case using lex_py_str [of rest s] lex_json_str [of s rest]
    by (cases f) (simp_all add: encode_def)
next
  case (PList xs)
  have "lex f (join '', '' (map (encode f) xs) @ CHR '']'' # rest)
          = map_option (\<lambda>r. (sep_toks (map (toks f) xs)) @ r) (lex f (CHR '']'' # rest))"
    using PList.IH by (intro lex_join) simp_all
  from lex_brackets [OF this] show ?case
    by (cases f) (simp_all add: encode_def cong: map_cong)
next
  case (PTuple xs)
  show ?case
  proof (cases f)
    case Json
    have "lex f (join '', '' (map (encode f) xs) @ CHR '']'' # rest)
          = map_option (\<lambda>r. (sep_toks (map (toks f) xs)) @ r) (lex f (CHR '']'' # rest))"
      using PTuple.IH by (intro lex_join) simp_all
    from lex_brackets [OF this] show ?thesis
      using Json by (simp add: encode_def cong: map_cong)
  next
    case Python
    show ?thesis
    proof (cases "length xs = 1")
      case False
      have "lex f (join '', '' (map (encode f) xs) @ CHR '')'' # rest)
          = map_option (\<lambda>r. (sep_toks (map (toks f) xs)) @ r) (lex f (CHR '')'' # rest))"
        using PTuple.IH by (intro lex_join) simp_all
      then have "lex Python (join '', '' (map py_repr xs) @ '')'' @ rest)
          = map_option (\<lambda>r. (sep_toks (map (toks Python) xs)) @ r) (lex Python ('')'' @ rest))"
        using Python by (simp add: encode_def cong: map_cong)
      from lex_parens [OF this, of "[RParen]"]
      have "lex Python (''('' @ join '', '' (map py_repr xs) @ '')'' @ rest)
          = map_option (\<lambda>r. (LParen # sep_toks (map (toks Python) xs) @ [RParen]) @ r) (lex Python rest)"
        by simp
      moreover have "py_repr (PTuple xs) = ''('' @ join '', '' (map py_repr xs) @ '')''"
      proof (cases xs)
        case Nil
        then show ?thesis by simp
      next
        case (Cons x xs')
        then show ?thesis using False by (cases xs') simp_all
      qed
      ultimately show ?thesis using Python False by (simp add: encode_def)
    next
      case True
      then obtain x where xs: "xs = [x]" by (cases xs) auto
      have "lex f (encode f x @ CHR '','' # CHR '')'' # rest)
          = map_option (\<lambda>r. (toks f x) @ r) (lex f (CHR '','' # CHR '')'' # rest))"
        using PTuple.IH [of x] xs by simp
      then have "lex Python (py_repr x @ '',)'' @ rest)
          = map_option (\<lambda>r. (toks Python x) @ r) (lex Python ('',)'' @ rest))"
        using Python by (simp add: encode_def)
      from lex_parens [OF this, of "[Comma, RParen]"]
      have "lex Python (''('' @ py_repr x @ '',)'' @ rest)
          = map_option (\<lambda>r. (LParen # toks Python x @ [Comma, RParen]) @ r) (lex Python rest)"
        by simp
      then show ?thesis using Python xs by (simp add: encode_def)
    qed
  qed
qed

lemma sep_toks_hd:
  "tss \<noteq> [] \<Longrightarrow> hd tss \<noteq> [] \<Longrightarrow> sep_toks tss \<noteq> [] \<and> hd (sep_toks tss) = hd (hd tss)"
  by (cases tss rule: sep_toks.cases) auto

lemma toks_start: "\<exists>t ts. toks f v = t # ts \<and> starts_value t"
  by (cases v; cases f) auto

lemma sep_toks_start:
  assumes "xs \<noteq> []"
  shows "\<exists>t ts. sep_toks (map (toks f) xs) = t # ts \<and> starts_value t"
proof -
  obtain x xs' where xs: "xs = x # xs'" using assms by (cases xs) auto
  obtain t ts where t: "toks f x = t # ts" "starts_value t" using toks_start by blast
  show ?thesis using xs t by (cases xs') auto
qed

lemma need_pos: "0 < need v"
  by (cases v) auto

lemma parse_items_last:
  assumes "parse_value n f (tx @ closer # ts) = Some (dx, closer # ts)"
  shows "parse_items (Suc n) f closer (tx @ closer # ts) = Some ([dx], False, ts)"
  using assms by simp

lemma parse_items_trailing:
  assumes "parse_value n Python (tx @ Comma # RParen # ts) = Some (dx, Comma # RParen # ts)"
  shows "parse_items (Suc n) Python RParen (tx @ Comma # RParen # ts) = Some ([dx], True, ts)"
  using assms by simp

lemma parse_items_more:
  assumes "parse_value n f (tx @ Comma # t # after) = Some (dx, Comma # t # after)"
    and "starts_value t" and "closer = RBrack \<or> closer = RParen"
    and "parse_items n f closer (t # after) = Some (ds, trailing, ts)"
  shows "parse_items (Suc n) f closer (tx @ Comma # t # after) = Some (dx # ds, trailing, ts)"
  using assms by (cases t) auto

lemma parse_items_toks:
  assumes IH: "\<And>x n ts. x \<in> set xs \<Longrightarrow> need x \<le> n \<Longrightarrow>
                 parse_value n f (toks f x @ ts) = Some (decoded f x, ts)"
    and "xs \<noteq> []" and "sum_list (map (\<lambda>x. Suc (need x)) xs) \<le> m"
    and "closer = RBrack \<or> closer = RParen"
  shows "parse_items m f closer (sep_toks (map (toks f) xs) @ closer # ts)
           = Some (map (decoded f) xs, False, ts)"
  using assms
proof (induction xs arbitrary: m rule: induct_list012)
  case 1
  then show ?case by simp
next
  case (2 x)
  then obtain n where m: "m = Suc n" "need x \<le> n" by (cases m) auto
  have "parse_value n f (toks f x @ closer # ts) = Some (decoded f x, closer # ts)"
    using "2.prems"(1) m by simp
  from parse_items_last [OF this] show ?case using m by simp
next
  case (3 x y zs)
  then obtain n where m: "m = Suc n" "need x \<le> n"
    "sum_list (map (\<lambda>x. Suc (need x)) (y # zs)) \<le> n" by (cases m) auto
  obtain t after where t: "sep_toks (map (toks f) (y # zs)) = t # after" "starts_value t"
    using sep_toks_start [of "y # zs" f] by auto
  have rest: "parse_items n f closer (t # after @ closer # ts) = Some (map (decoded f) (y # zs), False, ts)"
    using "3.IH"(2) [of n] "3.prems" m(3) t(1) by simp
  have "parse_value n f (toks f x @ Comma # t # after @ closer # ts)
          = Some (decoded f x, Comma # t # after @ closer # ts)"
    using "3.prems"(1) m by simp
  from parse_items_more [OF this t(2) "3.prems"(4) rest]
  show ?case using m t(1) by simp
qed

lemma parse_list:
  assumes "xs = [] \<or> parse_items n f RBrack (body @ RBrack # ts) = Some (ds, trailing, ts)"
    and "xs = [] \<longrightarrow> body = [] \<and> ds = []"
    and "xs \<noteq> [] \<longrightarrow> (\<exists>t after. body = t # after \<and> starts_value t)"
  shows "parse_value (Suc n) f (LBrack # body @ RBrack # ts) = Some (PList ds, ts)"
proof (cases "xs = []")
  case True
  then show ?thesis using assms by simp
next
  case False
  then obtain t after where b: "body = t # after" "starts_value t" using assms(3) by auto
  then show ?thesis using assms(1) False by (cases t) auto
qed

lemma parse_tuple:
  assumes "xs = [] \<or> parse_items n Python RParen (body @ RParen # ts) = Some (ds, trailing, ts)"
    and "xs = [] \<longrightarrow> body = [] \<and> ds = []"
    and "xs \<noteq> [] \<longrightarrow> (\<exists>t after. body = t # after \<and> starts_value t)"
    and "length ds = 1 \<longrightarrow> trailing"
  shows "parse_value (Suc n) Python (LParen # body @ RParen # ts) = Some (PTuple ds, ts)"
proof (cases "xs = []")
  case True
  then show ?thesis using assms by simp
next
  case False
  then obtain t after where b: "body = t # after" "starts_value t" using assms(3) by auto
  then show ?thesis using assms(1,4) False by (cases t) auto
qed

lemma decoded_simps: "decoded Python = (\<lambda>v. v)" "decoded Json = listify"
  by (simp_all add: decoded_def fun_eq_iff)

lemma parse_value_toks:
  "need v \<le> n \<Longrightarrow> parse_value n f (toks f v @ ts) = Some (decoded f v, ts)"
proof (induction v arbitrary: n ts)
  case PNone
  then obtain n' where "n = Suc n'" by (cases n) auto
  then show ?case by (cases f) (simp_all add: decoded_def name_value_def)
next
  case (PBool b)
  then obtain n' where "n = Suc n'" by (cases n) auto
  then show ?case by (cases f; cases b) (simp_all add: decoded_def name_value_def)
next
  case (PInt i)
  then obtain n' where "n = Suc n'" by (cases n) auto
  then show ?case by (cases f) (simp_all add: decoded_def)
next
  case (PStr s)
  then obtain n' where "n = Suc n'" by (cases n) auto
  then show ?case by (cases f) (simp_all add: decoded_def)
next
  case (PList xs)
  then obtain n' where n: "n = Suc n'" "sum_list (map (\<lambda>x. Suc (need x)) xs) \<le> n'"
    by (cases n) auto
  let ?body = "sep_toks (map (toks f) xs)"
  have items: "xs \<noteq> [] \<Longrightarrow>
      parse_items n' f RBrack (?body @ RBrack # ts) = Some (map (decoded f) xs, False, ts)"
    using PList.IH n(2) by (intro parse_items_toks) auto
  have "parse_value (Suc n') f (LBrack # ?body @ RBrack # ts) = Some (PList (map (decoded f) xs), ts)"
    using items sep_toks_start [of xs f] by (intro parse_list [where xs = xs and trailing = False]) auto
  moreover have "decoded f (PList xs) = PList (map (decoded f) xs)"
    by (cases f) (simp_all add: decoded_simps)
  ultimately show ?case using n by simp
next
  case (PTuple xs)
  then obtain n' where n: "n = Suc n'" "sum_list (map (\<lambda>x. Suc (need x)) xs) \<le> n'"
    by (cases n) auto
  let ?body = "sep_toks (map (toks f) xs)"
  show ?case
  proof (cases f)
    case Json
    have items: "xs \<noteq> [] \<Longrightarrow>
        parse_items n' f RBrack (?body @ RBrack # ts) = Some (map (decoded f) xs, False, ts)"
      using PTuple.IH n(2) by (intro parse_items_toks) auto
    have "parse_value (Suc n') f (LBrack # ?body @ RBrack # ts) = Some (PList (map (decoded f) xs), ts)"
      using items sep_toks_start [of xs f] by (intro parse_list [where xs = xs and trailing = False]) auto
    moreover have "decoded f (PTuple xs) = PList (map (decoded f) xs)"
      using Json by (simp add: decoded_simps)
    ultimately show ?thesis using n Json by simp
  next
    case Python
    have dec: "decoded Python (PTuple xs) = PTuple (map (decoded Python) xs)"
      by (simp add: decoded_simps)
    show ?thesis
    proof (cases "length xs = 1")
      case False
      have items: "xs \<noteq> [] \<Longrightarrow>
          parse_items n' Python RParen (sep_toks (map (toks Python) xs) @ RParen # ts)
            = Some (map (decoded Python) xs, False, ts)"
        using PTuple.IH [unfolded Python] n(2) by (intro parse_items_toks) auto
      have "parse_value (Suc n') Python (LParen # sep_toks (map (toks Python) xs) @ RParen # ts)
              = Some (PTuple (map (decoded Python) xs), ts)"
        using items sep_toks_start [of xs Python] False
        by (intro parse_tuple [where xs = xs and trailing = False]) auto
      then show ?thesis using n Python False dec by simp
    next
      case True
      then obtain x where xs: "xs = [x]" by (cases xs) auto
      then obtain n'' where n'': "n' = Suc n''" "need x \<le> n''" using n(2) by (cases n') auto
      have "parse_value n'' Python (toks Python x @ Comma # RParen # ts)
              = Some (decoded Python x, Comma # RParen # ts)"
        using PTuple.IH [unfolded Python, of x n''] xs n'' by simp
      from parse_items_trailing [OF this]
      have it: "parse_items n' Python RParen (toks Python x @ [Comma] @ RParen # ts)
              = Some ([decoded Python x], True, ts)"
        using n'' by simp
      obtain t after where t: "toks Python x = t # after" "starts_value t" using toks_start by blast
      have "parse_value (Suc n') Python (LParen # (toks Python x @ [Comma]) @ RParen # ts)
              = Some (PTuple [decoded Python x], ts)"
        using it t by (intro parse_tuple [where xs = xs and trailing = True]) (auto simp: xs)
      then show ?thesis using n Python xs dec by simp
    qed
  qed
qed

lemma length_sep_toks:
  "length (sep_toks tss) = sum_list (map length tss) + (length tss - 1)"
  by (induction tss rule: sep_toks.induct) auto

lemma need_sum_bound:
  "(\<And>x. x \<in> set xs \<Longrightarrow> need x \<le> 2 * length (toks f x)) \<Longrightarrow>
     sum_list (map (\<lambda>x. Suc (need x)) xs)
       \<le> length xs + 2 * sum_list (map length (map (toks f) xs))"
proof (induction xs)
  case Nil
  show ?case by simp
next
  case (Cons a xs)
  have "need a \<le> 2 * length (toks f a)" using Cons.prems by simp
  moreover have "sum_list (map (\<lambda>x. Suc (need x)) xs)
       \<le> length xs + 2 * sum_list (map length (map (toks f) xs))"
    using Cons.prems by (intro Cons.IH) simp
  ultimately show ?case by simp
qed

lemma need_le_toks: "need v \<le> 2 * length (toks f v)"
proof (induction v)
  case (PList xs)
  from need_sum_bound [of xs f, OF PList.IH]
  show ?case by (cases "xs = []") (auto simp: length_sep_toks)
next
  case (PTuple xs)
  from need_sum_bound [of xs f, OF PTuple.IH]
  show ?case by (cases "xs = []"; cases f) (auto simp: length_sep_toks)
qed (cases f; simp)+

text \<open>Each decoder inverts its encoder, up to the tuples that JSON turns into lists.\<close>

lemma decode_encode: "decode f (encode f v) = Inr (decoded f v)"
proof -
  have "lex f (encode f v @ []) = map_option (\<lambda>r. toks f v @ r) (lex f [])"
    by (rule lex_encode) simp
  then have l: "lex f (encode f v) = Some (toks f v)" by simp
  have "need v \<le> 2 * length (toks f v) + 2"
    using need_le_toks [of v f] by simp
  then have "parse_value (2 * length (toks f v) + 2) f (toks f v @ []) = Some (decoded f v, [])"
    by (rule parse_value_toks)
  then show ?thesis using l by (simp add: decode_def)
qed

lemma encode_nonempty: "encode f v \<noteq> []"
proof
  assume "encode f v = []"
  then have "lex f (encode f v) = Some []" by simp
  moreover have "lex f (encode f v @ []) = map_option (\<lambda>r. toks f v @ r) (lex f [])"
    by (rule lex_encode) simp
  ultimately show False using toks_start [of f v] by auto
qed

subsection \<open>The statement adapter\<close>

lemma abortRequested_cases:
  "abortRequested s = Inr (a, s1) \<Longrightarrow>
     monitor s \<and> s1 = s\<lparr>aborts := tl (aborts s)\<rparr> \<and> a = (aborts s \<noteq> [] \<and> hd (aborts s))"
  by (cases "aborts s") (auto simp: abortRequested_def split: if_splits)


lemma attempts_report [simp]: "attempts (report le s) = attempts s"
  by (cases le) (simp_all add: report_def attempts_def log_msg_def emit_def)

lemma monitor_report [simp]: "monitor (report le s) = monitor s"
  by (cases le) (simp_all add: report_def log_msg_def emit_def)




lemma abortRequested_quiet:
  "monitor s \<Longrightarrow> aborts s = [] \<or> \<not> hd (aborts s) \<Longrightarrow>
     abortRequested s = Inr (False, s\<lparr>aborts := tl (aborts s)\<rparr>)"
  by (cases "aborts s") (auto simp: abortRequested_def)


lemma loop_exhausted: "\<not> r < 10 \<Longrightarrow> execute_loop q r le s = Inr (None, report le s)"
  by (subst execute_loop.simps) simp

lemma loop_raise: "r < 10 \<Longrightarrow> abortRequested s = Inl e \<Longrightarrow> execute_loop q r le s = Inl e"
  by (subst execute_loop.simps) simp

lemma loop_abort:
  "r < 10 \<Longrightarrow> abortRequested s = Inr (True, s1) \<Longrightarrow> execute_loop q r le s = Inr (None, report le s1)"
  by (subst execute_loop.simps) simp

lemma loop_exit:
  "r < 10 \<Longrightarrow> abortRequested s = Inr (False, s1) \<Longrightarrow> exit s1 \<Longrightarrow>
     execute_loop q r le s = Inr (None, s1)"
  by (subst execute_loop.simps) simp

lemma loop_success:
  "r < 10 \<Longrightarrow> abortRequested s = Inr (False, s1) \<Longrightarrow> \<not> exit s1 \<Longrightarrow>
     attempt q s1 = (Inr rows, s2) \<Longrightarrow> execute_loop q r le s = Inr (Some rows, s2)"
  by (subst execute_loop.simps) simp

lemma loop_locked:
  "r < 10 \<Longrightarrow> abortRequested s = Inr (False, s1) \<Longrightarrow> \<not> exit s1 \<Longrightarrow>
     attempt q s1 = (Inl exc, s2) \<Longrightarrow> locked_error exc \<Longrightarrow>
     execute_loop q r le s =
       execute_loop q (r + 1) (Some exc)
         (emit (WaitForAbort 500) (log_msg ''retrying DB commit...'' LOGDEBUG s2))"
  by (subst execute_loop.simps, cases exc) simp_all

lemma loop_failed:
  "r < 10 \<Longrightarrow> abortRequested s = Inr (False, s1) \<Longrightarrow> \<not> exit s1 \<Longrightarrow>
     attempt q s1 = (Inl exc, s2) \<Longrightarrow> \<not> locked_error exc \<Longrightarrow>
     execute_loop q r le s = Inr (None, report (Some exc) s2)"
  by (subst execute_loop.simps, cases exc) simp_all

lemma same_host_refl [simp]: "same_host s s"
  by (simp add: same_host_def)

lemma same_host_trans: "same_host s s1 \<Longrightarrow> same_host s1 s2 \<Longrightarrow> same_host s s2"
  by (simp add: same_host_def)

lemma same_host_report: "same_host s (report le s)"
  by (cases le) (simp_all add: report_def log_msg_def emit_def same_host_def)

lemma same_host_abort: "abortRequested s = Inr (a, s1) \<Longrightarrow> same_host s s1"
  using abortRequested_cases [of s a s1] by (simp add: same_host_def)

lemma same_host_attempt: "attempt q s = (r, s2) \<Longrightarrow> same_host s s2"
  by (auto simp: attempt_def Let_def emit_def same_host_def
      split: list.splits option.splits prod.splits)

lemma same_host_retry:
  "same_host s (emit (WaitForAbort 500) (log_msg ''retrying DB commit...'' LOGDEBUG s))"
  by (simp add: emit_def log_msg_def same_host_def)

lemma execute_loop_keeps:
  "execute_loop q r le s = Inr (res, s') \<Longrightarrow> same_host s s'"
proof (induction q r le s rule: execute_loop.induct)
  case (1 query retries last_error s)
  show ?case
  proof (cases "retries < 10")
    case False
    then show ?thesis using "1.prems" same_host_report by (auto simp: loop_exhausted)
  next
    case lt: True
    show ?thesis
    proof (cases "abortRequested s")
      case (Inl e)
      then show ?thesis using "1.prems" lt by (simp add: loop_raise)
    next
      case (Inr p)
      obtain a s1 where p: "p = (a, s1)" by (cases p)
      note ab = Inr [unfolded p]
      note h1 = same_host_abort [OF ab]
      obtain r2 s2 where at: "attempt query s1 = (r2, s2)" by (cases "attempt query s1")
      note h2 = same_host_trans [OF h1 same_host_attempt [OF at]]
      consider (abort) "a" | (exit) "\<not> a" "exit s1" | (ok) rows where "\<not> a" "\<not> exit s1" "r2 = Inr rows"
        | (locked) exc where "\<not> a" "\<not> exit s1" "r2 = Inl exc" "locked_error exc"
        | (failed) exc where "\<not> a" "\<not> exit s1" "r2 = Inl exc" "\<not> locked_error exc"
        by (cases r2) auto
      then show ?thesis
      proof cases
        case abort
        then have "execute_loop query retries last_error s = Inr (None, report last_error s1)"
          using lt ab by (simp add: loop_abort)
        then show ?thesis using "1.prems" h1 same_host_trans [OF h1 same_host_report] by auto
      next
        case exit
        then have "execute_loop query retries last_error s = Inr (None, s1)"
          using lt ab by (simp add: loop_exit)
        then show ?thesis using "1.prems" h1 by auto
      next
        case ok
        then have "execute_loop query retries last_error s = Inr (Some rows, s2)"
          using lt ab at by (simp add: loop_success)
        then show ?thesis using "1.prems" h2 by auto
      next
        case failed
        then have "execute_loop query retries last_error s = Inr (None, report (Some exc) s2)"
          using lt ab at by (simp add: loop_failed)
        then show ?thesis using "1.prems" same_host_trans [OF h2 same_host_report] by auto
      next
        case locked
        then obtain msg where exc: "exc = OperationalError msg" "contains ''locked'' (lower msg)"
          by (cases exc) auto
        let ?s3 = "emit (WaitForAbort 500) (log_msg ''retrying DB commit...'' LOGDEBUG s2)"
        have "execute_loop query retries last_error s = execute_loop query (retries + 1) (Some exc) ?s3"
          using locked lt ab at by (simp add: loop_locked)
        then have "execute_loop query (retries + 1) (Some exc) ?s3 = Inr (res, s')"
          using "1.prems" by simp
        from "1.IH" [OF lt ab refl _ _ at [symmetric] locked(3) exc(1) exc(2) this] locked
        have "same_host ?s3 s'" by simp
        then show ?thesis using same_host_trans [OF h2 same_host_retry] same_host_trans by blast
      qed
    qed
  qed
qed




lemma other_failure:
  assumes "monitor s" "\<not> exit s" "aborts s = [] \<or> \<not> hd (aborts s)" "faults s = Some exc # rest"
    "\<not> locked_error exc" "r < 10"
  shows "execute_loop q r le s =
           Inr (None, report (Some exc)
                  (s\<lparr>aborts := tl (aborts s), faults := rest, events := events s @ [Execute q]\<rparr>))"
proof -
  let ?s1 = "s\<lparr>aborts := tl (aborts s)\<rparr>"
  have "attempt q ?s1 = (Inl exc, ?s1\<lparr>faults := rest, events := events s @ [Execute q]\<rparr>)"
    using assms(4) by (simp add: attempt_def Let_def emit_def)
  from loop_failed [OF assms(6) abortRequested_quiet [OF assms(1,3)] _ this assms(5)]
  show ?thesis using assms(2) by simp
qed

lemma success:
  assumes "monitor s" "\<not> exit s" "aborts s = [] \<or> \<not> hd (aborts s)"
    "faults s = [] \<or> hd (faults s) = None" "r < 10"
  shows "execute_loop q r le s =
           Inr (Some (fst (run_stmt q (table s))),
                s\<lparr>aborts := tl (aborts s), faults := tl (faults s),
                  table := snd (run_stmt q (table s)),
                  events := events s @ [Execute q, Commit]\<rparr>)"
proof -
  let ?s1 = "s\<lparr>aborts := tl (aborts s)\<rparr>"
  have "attempt q ?s1 = (Inr (fst (run_stmt q (table s))),
          ?s1\<lparr>faults := tl (faults s), table := snd (run_stmt q (table s)),
               events := events s @ [Execute q, Commit]\<rparr>)"
    using assms(4)
    by (cases "faults s"; cases "run_stmt q (table s)")
       (auto simp: attempt_def Let_def emit_def split: option.splits)
  from loop_success [OF assms(5) abortRequested_quiet [OF assms(1,3)] _ this]
  show ?thesis using assms(2) by simp
qed


lemma get_database_cases:
  "get_database s = Inr s0 \<Longrightarrow>
     (database s \<or> store_valid s \<or> recreate_fault s = None)
     \<and> s0 = s\<lparr>table := (if database s \<or> store_valid s then table s else []),
              store_valid := (database s \<and> store_valid s \<or> \<not> database s), database := True\<rparr>"
  by (auto simp: get_database_def split: if_splits option.splits)


lemma get_database_fields:
  assumes "get_database s = Inr s0"
  shows "monitor s0 = monitor s" "exit s0 = exit s" "aborts s0 = aborts s" "faults s0 = faults s"
    "events s0 = events s" "attempts s0 = attempts s" "database s0" "same_host s s0"
  using get_database_cases [OF assms] by (simp_all add: attempts_def same_host_def)


lemma execute_sql_keeps:
  "execute_sql q s = Inr (res, s') \<Longrightarrow> same_host s s'"
proof -
  assume a: "execute_sql q s = Inr (res, s')"
  then obtain s0 where g: "get_database s = Inr s0" and l: "execute_loop q 0 None s0 = Inr (res, s')"
    by (auto simp: execute_sql_def split: sum.splits)
  show ?thesis
    using same_host_trans [OF get_database_fields(8) [OF g] execute_loop_keeps [OF l]] .
qed






subsection \<open>Facts about the two tiers\<close>

lemma loads_dumps:
  "data_is_json s1 = data_is_json s \<Longrightarrow>
     loads json_data s1 (dumps json_data s v) = Inr (stored_value json_data s v)"
  using decode_encode [of Json v] decode_encode [of Python v]
  by (simp add: loads_def dumps_def stored_value_def py_eval_def json_loads_def encode_def
        decoded_simps)

lemma dumps_nonempty: "dumps json_data s v \<noteq> []"
  using encode_nonempty [of Json v] encode_nonempty [of Python v]
  by (simp add: dumps_def encode_def)

lemma stored_triple:
  "stored_value json_data s (PTuple [PInt e, v, PInt c]) =
     (if json_data \<or> data_is_json s then PList [PInt e, stored_value json_data s v, PInt c]
      else PTuple [PInt e, v, PInt c])"
  by (simp add: stored_value_def)

lemma stored_value_None [simp]: "stored_value json_data s PNone = PNone"
  by (simp add: stored_value_def)

lemma get_mem_cache_entry:
  assumes "win s1" "data_is_json s1 = data_is_json s"
    "getProperty s1 endpoint = dumps json_data s (PTuple [PInt e, v, PInt c])"
  shows "get_mem_cache endpoint cs t json_data s1 =
           Inr (if valid_entry t cs e c then stored_value json_data s v else PNone)"
  using assms loads_dumps [OF assms(2), of json_data "PTuple [PInt e, v, PInt c]"]
  by (auto simp: get_mem_cache_def dumps_nonempty stored_triple valid_entry_def stored_value_def)

lemma get_mem_cache_empty:
  "win s \<Longrightarrow> getProperty s endpoint = [] \<Longrightarrow> get_mem_cache endpoint cs t json_data s = Inr PNone"
  by (simp add: get_mem_cache_def)

lemma get_db_cache_row:
  assumes "execute_sql (Select endpoint) s = Inr (Some ((key, e, text, c) # others), s1)"
    "loads json_data s text = Inr v" "enable_mem_cache s \<longrightarrow> win s"
  shows "get_db_cache endpoint cs t json_data s =
           (if valid_entry t cs e c
            then Inr (v, if enable_mem_cache s
                         then setProperty endpoint (dumps json_data s (PTuple [PInt e, v, PInt cs])) s1
                         else s1)
            else Inr (PNone, s1))"
proof -
  have h: "same_host s s1" using execute_sql_keeps [OF assms(1)] .
  then have l: "loads json_data s1 text = Inr v" "dumps json_data s1 = dumps json_data s"
    using assms(2) by (simp_all add: loads_def dumps_def same_host_def fun_eq_iff)
  show ?thesis
    using assms(1,3) h l
    by (auto simp: get_db_cache_def valid_entry_def set_mem_cache_def same_host_def Let_def)
qed

lemma get_db_cache_miss:
  "execute_sql (Select endpoint) s = Inr (Some [], s1) \<Longrightarrow>
     get_db_cache endpoint cs t json_data s = Inr (PNone, s1)"
  "execute_sql (Select endpoint) s = Inr (None, s1) \<Longrightarrow>
     get_db_cache endpoint cs t json_data s = Inr (PNone, s1)"
  by (simp_all add: get_db_cache_def)

lemma get_falls_through:
  assumes "get_checksum (global_checksum s) checksum = Inr cs"
    "\<not> enable_mem_cache s \<or> get_mem_cache endpoint cs (get_timestamp now) json_data s = Inr PNone"
  shows "get endpoint checksum json_data now s =
           get_db_cache endpoint cs (get_timestamp now) json_data s"
  using assms by (auto simp: get_def Let_def)

lemma get_mem_hit:
  assumes "get_checksum (global_checksum s) checksum = Inr cs" "enable_mem_cache s"
    "get_mem_cache endpoint cs (get_timestamp now) json_data s = Inr v" "v \<noteq> PNone"
  shows "get endpoint checksum json_data now s = Inr (v, s)"
  using assms by (simp add: get_def Let_def)

lemma quiet_state:
  "aborts s = [] \<Longrightarrow> faults s = [] \<Longrightarrow> s\<lparr>aborts := [], faults := [], table := t, events := ev\<rparr>
     = s\<lparr>table := t, events := ev\<rparr>"
  by (cases s) simp

lemma execute_sql_quiet:
  assumes "get_database s = Inr s0" "monitor s" "\<not> exit s" "aborts s = []" "faults s = []"
  shows "execute_sql q s =
           Inr (Some (fst (run_stmt q (table s0))),
                s0\<lparr>table := snd (run_stmt q (table s0)), events := events s @ [Execute q, Commit]\<rparr>)"
proof -
  note g = get_database_fields [OF assms(1)]
  have "execute_loop q 0 None s0 =
           Inr (Some (fst (run_stmt q (table s0))),
                s0\<lparr>aborts := tl (aborts s0), faults := tl (faults s0),
                  table := snd (run_stmt q (table s0)),
                  events := events s0 @ [Execute q, Commit]\<rparr>)"
    using assms g by (intro success) auto
  then show ?thesis
    using assms g quiet_state [of s0] by (simp add: execute_sql_def)
qed

subsection \<open>The validity test on the two read paths\<close>

lemma eval_stale: "py_eval ''(1, 5, 0)'' = Inr (PTuple [PInt 1, PInt 5, PInt 0])"
  by code_simp

lemma eval_seven: "py_eval ''7'' = Inr (PInt 7)"
  by code_simp

lemma no_checksum: "get_checksum None [] = Inr 0"
  by (simp add: get_checksum_def truthy_opt_def)

lemma not_locked_example: "\<not> locked_error (OtherError ''disk I/O error'')"
  by (simp add: lower_def lower_char_def code_def)

text \<open>
  Claim C2, as worded, does not hold of \<open>get\<close>.  First engine: no ephemeral entry,
  a row for the key that is valid at the time of the call (time 5, expiry 100,
  fingerprint 0), and a statement execution that fails: \<open>get\<close> returns \<open>None\<close>
  for a valid entry.  Second engine: an ephemeral entry for the key that has
  expired (expiry 1) and a valid row with another payload: \<open>get\<close> does not
  return absent for the entry that fails the test, it returns the payload of the row.
\<close>

theorem C2_get_counterexample:
  "valid_entry (get_timestamp 5000000) 0 100 0
   \<and> map_sum id fst
        (get ''k'' '''' False 5000000
           (example_engine\<lparr>table := [(''k'', 100, ''7'', 0)],
                            faults := [Some (OtherError ''disk I/O error'')]\<rparr>)) = Inr PNone
   \<and> \<not> valid_entry (get_timestamp 5000000) 0 1 0
   \<and> map_sum id fst
        (get ''k'' '''' False 5000000
           (example_engine\<lparr>properties := [''k'' \<mapsto> ''(1, 5, 0)''],
                            table := [(''k'', 100, ''7'', 0)]\<rparr>)) = Inr (PInt 7)"
proof -
  let ?a = "example_engine\<lparr>table := [(''k'', 100, ''7'', 0)],
                            faults := [Some (OtherError ''disk I/O error'')]\<rparr>"
  let ?b = "example_engine\<lparr>properties := [''k'' \<mapsto> ''(1, 5, 0)''],
                            table := [(''k'', 100, ''7'', 0)]\<rparr>"
  have t: "get_timestamp 5000000 = 5" by (simp add: get_timestamp_def)
  have a: "map_sum id fst (get ''k'' '''' False 5000000 ?a) = Inr PNone"
    by (simp add: get_def no_checksum get_mem_cache_def getProperty_def get_db_cache_def
          execute_sql_def get_database_def other_failure not_locked_example example_engine_def)
  have m: "get_mem_cache ''k'' 0 5 False ?b = Inr PNone"
    by (simp add: get_mem_cache_def getProperty_def loads_def eval_stale example_engine_def)
  have q: "execute_sql (Select ''k'') ?b =
      Inr (Some [(''k'', 100, ''7'', 0)],
           example_engine\<lparr>properties := [''k'' \<mapsto> ''(1, 5, 0)''],
                           table := [(''k'', 100, ''7'', 0)], database := True,
                           events := [Execute (Select ''k''), Commit]\<rparr>)"
    by (simp add: execute_sql_def get_database_def example_engine_def success)
  have g: "get ''k'' '''' False 5000000 ?b = get_db_cache ''k'' 0 5 False ?b"
    using get_falls_through [of ?b "''''" 0 "''k''" 5000000 False] m
    by (simp add: t no_checksum example_engine_def)
  have "map_sum id fst (get_db_cache ''k'' 0 5 False ?b) = Inr (PInt 7)"
    using get_db_cache_row [OF q, of False "PInt 7" 0 5]
    by (simp add: loads_def eval_seven valid_entry_def example_engine_def)
  then have b: "map_sum id fst (get ''k'' '''' False 5000000 ?b) = Inr (PInt 7)"
    by (simp only: g)
  show ?thesis using a b by (simp add: t valid_entry_def)
qed

text \<open>
  Claim C2, amended.  Let \<open>cs\<close> be the effective fingerprint of the call and let
  the current time be the timestamp of \<open>now\<close>.  Ephemeral path: when the tier is
  enabled and holds, for the key, an entry written by \<open>_set_mem_cache\<close> with
  expiry \<open>e\<close>, payload \<open>v\<close> and fingerprint \<open>c\<close>, then \<open>get\<close> returns the payload
  (as decoded) without touching the store if the entry is valid and the payload is
  not \<open>None\<close>, and \<open>get\<close> is the read of the persistent tier if the entry is not
  valid.  \<open>get\<close> is the read of the persistent tier as well when the ephemeral tier
  is disabled or holds nothing for the key.  Persistent path: when the \<open>SELECT\<close>
  returns a row with expiry \<open>e2\<close>, fingerprint \<open>c2\<close> and a text that decodes to
  \<open>w\<close>, the read returns \<open>w\<close> if the row is valid and \<open>None\<close> otherwise.  Both
  paths apply the same test, \<open>valid_entry\<close>, and an effective fingerprint of 0
  reduces it to the test of the expiry.  (So \<open>get\<close> returns \<open>None\<close> for a valid row
  when the statement fails or is not executed, and returns the payload of a valid
  row when the ephemeral entry is not valid.)
\<close>

theorem C2_validity:
  "get_checksum (global_checksum s) checksum = Inr cs \<Longrightarrow>
   (enable_mem_cache s \<and> win s \<and> data_is_json s0 = data_is_json s
      \<and> getProperty s endpoint = dumps json_data s0 (PTuple [PInt e, v, PInt c]) \<longrightarrow>
        (valid_entry (get_timestamp now) cs e c \<and> stored_value json_data s0 v \<noteq> PNone \<longrightarrow>
           get endpoint checksum json_data now s = Inr (stored_value json_data s0 v, s))
      \<and> (\<not> valid_entry (get_timestamp now) cs e c \<longrightarrow>
           get endpoint checksum json_data now s =
             get_db_cache endpoint cs (get_timestamp now) json_data s))
   \<and> (\<not> enable_mem_cache s \<or> (win s \<and> getProperty s endpoint = []) \<longrightarrow>
        get endpoint checksum json_data now s =
          get_db_cache endpoint cs (get_timestamp now) json_data s)
   \<and> (execute_sql (Select endpoint) s = Inr (Some ((key, e2, text, c2) # others), s1)
      \<and> loads json_data s text = Inr w \<and> (enable_mem_cache s \<longrightarrow> win s) \<longrightarrow>
        (valid_entry (get_timestamp now) cs e2 c2 \<longrightarrow>
           get_db_cache endpoint cs (get_timestamp now) json_data s =
             Inr (w, if enable_mem_cache s
                     then setProperty endpoint (dumps json_data s (PTuple [PInt e2, w, PInt cs])) s1
                     else s1))
      \<and> (\<not> valid_entry (get_timestamp now) cs e2 c2 \<longrightarrow>
           get_db_cache endpoint cs (get_timestamp now) json_data s = Inr (PNone, s1)))
   \<and> valid_entry (get_timestamp now) 0 e c = (get_timestamp now < e)"
proof -
  assume cs: "get_checksum (global_checksum s) checksum = Inr cs"
  let ?t = "get_timestamp now"
  have p1: "get endpoint checksum json_data now s = Inr (stored_value json_data s0 v, s)"
    if "enable_mem_cache s \<and> win s \<and> data_is_json s0 = data_is_json s
      \<and> getProperty s endpoint = dumps json_data s0 (PTuple [PInt e, v, PInt c])"
      "valid_entry ?t cs e c \<and> stored_value json_data s0 v \<noteq> PNone"
    using that get_mem_cache_entry [of s s0 endpoint json_data e v c cs ?t]
    by (intro get_mem_hit [OF cs]) auto
  have p2: "get endpoint checksum json_data now s = get_db_cache endpoint cs ?t json_data s"
    if "enable_mem_cache s \<and> win s \<and> data_is_json s0 = data_is_json s
      \<and> getProperty s endpoint = dumps json_data s0 (PTuple [PInt e, v, PInt c])"
      "\<not> valid_entry ?t cs e c"
    using that get_mem_cache_entry [of s s0 endpoint json_data e v c cs ?t]
    by (intro get_falls_through [OF cs]) auto
  have p3: "get endpoint checksum json_data now s = get_db_cache endpoint cs ?t json_data s"
    if "\<not> enable_mem_cache s \<or> (win s \<and> getProperty s endpoint = [])"
    using that get_mem_cache_empty [of s endpoint cs ?t json_data]
    by (intro get_falls_through [OF cs]) auto
  have p4: "get_db_cache endpoint cs ?t json_data s =
             (if valid_entry ?t cs e2 c2
              then Inr (w, if enable_mem_cache s
                     then setProperty endpoint (dumps json_data s (PTuple [PInt e2, w, PInt cs])) s1
                     else s1)
              else Inr (PNone, s1))"
    if "execute_sql (Select endpoint) s = Inr (Some ((key, e2, text, c2) # others), s1)
      \<and> loads json_data s text = Inr w \<and> (enable_mem_cache s \<longrightarrow> win s)"
    using that by (intro get_db_cache_row) auto
  have p5: "valid_entry ?t 0 e c = (?t < e)" by (simp add: valid_entry_def)
  show ?thesis using p1 p2 p3 p4 p5 by presburger
qed

theorem C2_validity_witness:
  "get ''k'' '''' False 5000000
       (setProperty ''k'' (dumps False example_engine (PTuple [PInt 100, PInt 7, PInt 0]))
          example_engine)
     = Inr (PInt 7,
            setProperty ''k'' (dumps False example_engine (PTuple [PInt 100, PInt 7, PInt 0]))
              example_engine)"
  using C2_validity [where s = "setProperty ''k''
          (dumps False example_engine (PTuple [PInt 100, PInt 7, PInt 0])) example_engine"
        and checksum = "''''" and cs = 0 and ?s0.0 = example_engine and endpoint = "''k''"
        and json_data = False and e = 100 and v = "PInt 7" and c = 0 and now = 5000000,
        THEN conjunct1]
  by (simp add: no_checksum setProperty_def getProperty_def valid_entry_def get_timestamp_def
        stored_value_def example_engine_def)

subsection \<open>\<open>set\<close> followed by \<open>get\<close>\<close>












subsection \<open>Promotion to the ephemeral tier, and cached \<open>None\<close>\<close>

lemma checksum_a: "get_checksum None ''a'' = Inr 97"
  by (simp add: get_checksum_def composed_def truthy_opt_def ord_def)

text \<open>
  Claim C9.  Let \<open>get\<close>, with effective fingerprint \<open>cs\<close>, miss the ephemeral tier
  and hit a valid row with expiry \<open>e\<close> and fingerprint \<open>c\<close> whose text decodes to
  \<open>v\<close>.  Then \<open>get\<close> returns \<open>v\<close> and leaves in the ephemeral tier the entry
  \<open>(e, v, cs)\<close>: the expiry of the row, with the requested fingerprint in place
  of the stored one.  When \<open>cs\<close> is 0 and \<open>c\<close> is not, a later \<open>get\<close> whose effective
  fingerprint is \<open>c\<close> finds the ephemeral copy not valid, at any time, and is the
  read of the persistent tier.
\<close>

theorem C9_promotion:
  "get_checksum (global_checksum s) checksum = Inr cs \<Longrightarrow> enable_mem_cache s \<Longrightarrow> win s \<Longrightarrow>
   get_mem_cache endpoint cs (get_timestamp now) json_data s = Inr PNone \<Longrightarrow>
   execute_sql (Select endpoint) s = Inr (Some ((key, e, text, c) # others), s1) \<Longrightarrow>
   loads json_data s text = Inr v \<Longrightarrow> valid_entry (get_timestamp now) cs e c \<Longrightarrow>
     get endpoint checksum json_data now s =
       Inr (v, setProperty endpoint (dumps json_data s (PTuple [PInt e, v, PInt cs])) s1)
     \<and> (cs = 0 \<and> c \<noteq> 0 \<and> get_checksum (global_checksum s) checksum2 = Inr c \<longrightarrow>
          get_mem_cache endpoint c (get_timestamp later) json_data
            (setProperty endpoint (dumps json_data s (PTuple [PInt e, v, PInt cs])) s1) = Inr PNone
          \<and> get endpoint checksum2 json_data later
               (setProperty endpoint (dumps json_data s (PTuple [PInt e, v, PInt cs])) s1)
             = get_db_cache endpoint c (get_timestamp later) json_data
                 (setProperty endpoint (dumps json_data s (PTuple [PInt e, v, PInt cs])) s1))"
proof -
  assume cs: "get_checksum (global_checksum s) checksum = Inr cs"
    and mem: "enable_mem_cache s" and w: "win s"
    and miss: "get_mem_cache endpoint cs (get_timestamp now) json_data s = Inr PNone"
    and q: "execute_sql (Select endpoint) s = Inr (Some ((key, e, text, c) # others), s1)"
    and l: "loads json_data s text = Inr v"
    and valid: "valid_entry (get_timestamp now) cs e c"
  let ?s2 = "setProperty endpoint (dumps json_data s (PTuple [PInt e, v, PInt cs])) s1"
  have h: "same_host s s1" using execute_sql_keeps [OF q] .
  have first: "get endpoint checksum json_data now s = Inr (v, ?s2)"
    using get_falls_through [OF cs, of endpoint now json_data] miss
      get_db_cache_row [OF q l, of cs "get_timestamp now"] mem w valid
    by simp
  have f2: "win ?s2" "data_is_json ?s2 = data_is_json s" "enable_mem_cache ?s2"
    "global_checksum ?s2 = global_checksum s"
    "getProperty ?s2 endpoint = dumps json_data s (PTuple [PInt e, v, PInt cs])"
    using h mem w by (simp_all add: same_host_def setProperty_def getProperty_def)
  have later: "get_mem_cache endpoint c (get_timestamp later) json_data ?s2 = Inr PNone
      \<and> get endpoint checksum2 json_data later ?s2
           = get_db_cache endpoint c (get_timestamp later) json_data ?s2"
    if a: "cs = 0 \<and> c \<noteq> 0 \<and> get_checksum (global_checksum s) checksum2 = Inr c"
  proof -
    have m: "get_mem_cache endpoint c (get_timestamp later) json_data ?s2 = Inr PNone"
      using get_mem_cache_entry [OF f2(1) f2(2) f2(5), of c "get_timestamp later"] a
      by (simp add: valid_entry_def)
    have c2: "get_checksum (global_checksum ?s2) checksum2 = Inr c" using a f2(4) by simp
    show ?thesis using m get_falls_through [OF c2, of endpoint later json_data] by simp
  qed
  show ?thesis using first later by blast
qed

theorem C9_promotion_witness:
  "get ''k'' '''' False 5000000 (example_engine\<lparr>table := [(''k'', 100, ''7'', 97)]\<rparr>)
     = Inr (PInt 7,
            setProperty ''k'' (dumps False example_engine (PTuple [PInt 100, PInt 7, PInt 0]))
              (example_engine\<lparr>database := True, table := [(''k'', 100, ''7'', 97)],
                               events := [Execute (Select ''k''), Commit]\<rparr>))
   \<and> get_mem_cache ''k'' 97 6 False
        (setProperty ''k'' (dumps False example_engine (PTuple [PInt 100, PInt 7, PInt 0]))
           (example_engine\<lparr>database := True, table := [(''k'', 100, ''7'', 97)],
                            events := [Execute (Select ''k''), Commit]\<rparr>)) = Inr PNone"
proof -
  let ?s = "example_engine\<lparr>table := [(''k'', 100, ''7'', 97)]\<rparr>"
  let ?s1 = "example_engine\<lparr>database := True, table := [(''k'', 100, ''7'', 97)],
                            events := [Execute (Select ''k''), Commit]\<rparr>"
  have cs: "get_checksum (global_checksum ?s) '''' = Inr 0"
    "get_checksum (global_checksum ?s) ''a'' = Inr 97"
    by (simp_all add: example_engine_def no_checksum checksum_a)
  have miss: "get_mem_cache ''k'' 0 (get_timestamp 5000000) False ?s = Inr PNone"
    by (simp add: get_mem_cache_def getProperty_def example_engine_def)
  have q: "execute_sql (Select ''k'') ?s = Inr (Some ((''k'', 100, ''7'', 97) # []), ?s1)"
    by (simp add: execute_sql_def get_database_def example_engine_def success)
  have l: "loads False ?s ''7'' = Inr (PInt 7)"
    by (simp add: loads_def eval_seven example_engine_def)
  have valid: "valid_entry (get_timestamp 5000000) 0 100 97"
    by (simp add: valid_entry_def get_timestamp_def)
  have d: "dumps False ?s = dumps False example_engine"
    by (simp add: dumps_def fun_eq_iff example_engine_def)
  have t: "get_timestamp 6000000 = 6" by (simp add: get_timestamp_def)
  show ?thesis
    using C9_promotion [OF cs(1) _ _ miss q l valid, of "''a''" 6000000] cs(2)
    by (simp add: d t) (simp add: example_engine_def)
qed

text \<open>
  Claim C10.  Let the ephemeral tier hold, for the key, an entry written by
  \<open>_set_mem_cache\<close> whose payload is \<open>None\<close>, with any expiry and fingerprint, valid
  or not.  Then \<open>get\<close> is the read of the persistent tier.  On a store that opens,
  with no failing statement and no abort signal, and with no row for the key, that
  read executes the \<open>SELECT\<close> and returns \<open>None\<close>; \<open>get\<close> returns the same \<open>None\<close>
  when the row for the key holds a cached \<open>None\<close>, when the \<open>SELECT\<close> finds no row
  and when the statement is not executed.
\<close>

theorem C10_cached_none:
  "get_checksum (global_checksum s) checksum = Inr cs \<Longrightarrow> enable_mem_cache s \<Longrightarrow> win s \<Longrightarrow>
   data_is_json s0 = data_is_json s \<Longrightarrow>
   getProperty s endpoint = dumps json_data s0 (PTuple [PInt e, PNone, PInt c]) \<Longrightarrow>
     get endpoint checksum json_data now s =
       get_db_cache endpoint cs (get_timestamp now) json_data s
     \<and> (monitor s \<and> \<not> exit s \<and> get_database s = Inr sd \<and> aborts s = [] \<and> faults s = []
          \<and> filter (\<lambda>r. fst r = endpoint) (table sd) = [] \<longrightarrow>
          get endpoint checksum json_data now s =
            Inr (PNone, sd\<lparr>events := events s @ [Execute (Select endpoint), Commit]\<rparr>))
     \<and> (execute_sql (Select endpoint) s
            = Inr (Some ((key, e2, dumps json_data s0 PNone, c2) # others), s1) \<longrightarrow>
          map_sum id fst (get endpoint checksum json_data now s) = Inr PNone)
     \<and> (execute_sql (Select endpoint) s = Inr (Some [], s1) \<longrightarrow>
          get endpoint checksum json_data now s = Inr (PNone, s1))
     \<and> (execute_sql (Select endpoint) s = Inr (None, s1) \<longrightarrow>
          get endpoint checksum json_data now s = Inr (PNone, s1))"
proof -
  assume cs: "get_checksum (global_checksum s) checksum = Inr cs"
    and mem: "enable_mem_cache s" and w: "win s" and j: "data_is_json s0 = data_is_json s"
    and p: "getProperty s endpoint = dumps json_data s0 (PTuple [PInt e, PNone, PInt c])"
  let ?t = "get_timestamp now"
  have "get_mem_cache endpoint cs ?t json_data s = Inr PNone"
    using get_mem_cache_entry [OF w j [symmetric] p, of cs ?t] by simp
  then have g: "get endpoint checksum json_data now s = get_db_cache endpoint cs ?t json_data s"
    using get_falls_through [OF cs, of endpoint now json_data] by simp
  have p2: "get endpoint checksum json_data now s =
            Inr (PNone, sd\<lparr>events := events s @ [Execute (Select endpoint), Commit]\<rparr>)"
    if a: "monitor s \<and> \<not> exit s \<and> get_database s = Inr sd \<and> aborts s = [] \<and> faults s = []
          \<and> filter (\<lambda>r. fst r = endpoint) (table sd) = []"
  proof -
    have "sd\<lparr>table := table sd, events := ev\<rparr> = sd\<lparr>events := ev\<rparr>" for ev by (cases sd) simp
    then have "execute_sql (Select endpoint) s =
        Inr (Some [], sd\<lparr>events := events s @ [Execute (Select endpoint), Commit]\<rparr>)"
      using a execute_sql_quiet [of s sd "Select endpoint"] by simp
    then show ?thesis using g get_db_cache_miss(1) by simp
  qed
  have p3: "map_sum id fst (get endpoint checksum json_data now s) = Inr PNone"
    if a: "execute_sql (Select endpoint) s
            = Inr (Some ((key, e2, dumps json_data s0 PNone, c2) # others), s1)"
  proof -
    have "loads json_data s (dumps json_data s0 PNone) = Inr PNone"
      using loads_dumps [OF j [symmetric], of json_data PNone] by simp
    from get_db_cache_row [OF a this, of cs ?t] show ?thesis using g mem w by simp
  qed
  have p4: "get endpoint checksum json_data now s = Inr (PNone, s1)"
    if "execute_sql (Select endpoint) s = Inr (Some [], s1)"
    using that g get_db_cache_miss(1) by simp
  have p5: "get endpoint checksum json_data now s = Inr (PNone, s1)"
    if "execute_sql (Select endpoint) s = Inr (None, s1)"
    using that g get_db_cache_miss(2) by simp
  show ?thesis using g p2 p3 p4 p5 by blast
qed

theorem C10_cached_none_witness:
  "get ''k'' '''' False 5000000
       (setProperty ''k'' (dumps False example_engine (PTuple [PInt 100, PNone, PInt 0]))
          example_engine)
     = Inr (PNone,
            setProperty ''k'' (dumps False example_engine (PTuple [PInt 100, PNone, PInt 0]))
              (example_engine\<lparr>database := True, events := [Execute (Select ''k''), Commit]\<rparr>))
   \<and> valid_entry (get_timestamp 5000000) 0 100 0"
proof -
  let ?s = "setProperty ''k'' (dumps False example_engine (PTuple [PInt 100, PNone, PInt 0]))
              example_engine"
  let ?sd = "setProperty ''k'' (dumps False example_engine (PTuple [PInt 100, PNone, PInt 0]))
              (example_engine\<lparr>database := True\<rparr>)"
  have cs: "get_checksum (global_checksum ?s) '''' = Inr 0"
    by (simp add: example_engine_def no_checksum setProperty_def)
  have g: "get_database ?s = Inr ?sd"
    by (simp add: get_database_def setProperty_def example_engine_def)
  have f: "enable_mem_cache ?s" "win ?s" "data_is_json example_engine = data_is_json ?s"
    "getProperty ?s ''k'' = dumps False example_engine (PTuple [PInt 100, PNone, PInt 0])"
    "monitor ?s" "\<not> exit ?s" "aborts ?s = []" "faults ?s = []" "events ?s = []"
    "filter (\<lambda>r. fst r = ''k'') (table ?sd) = []"
    by (simp_all add: setProperty_def getProperty_def example_engine_def)
  have e: "?sd\<lparr>events := [Execute (Select ''k''), Commit]\<rparr>
      = setProperty ''k'' (dumps False example_engine (PTuple [PInt 100, PNone, PInt 0]))
              (example_engine\<lparr>database := True, events := [Execute (Select ''k''), Commit]\<rparr>)"
    by (simp add: setProperty_def example_engine_def)
  show ?thesis
    using C10_cached_none [OF cs f(1) f(2) f(3) f(4), of 5000000 ?sd, THEN conjunct2, THEN conjunct1]
      g f(5-10) e
    by (simp add: valid_entry_def get_timestamp_def)
qed

subsection \<open>\<open>set\<close> after shutdown\<close>

text \<open>
  Claim C7.  Once the cancellation flag is set, \<open>set\<close> returns normally for every
  key and value, provided that the expiry \<open>now + expiration\<close> is a representable
  date (the sum is computed before the flag is looked at, and raises
  \<open>OverflowError\<close> otherwise).  It writes to neither tier and leaves no event: the
  only field it touches is the busy-task list, to which it adds its task name and
  from which it removes it again (the list keeps its length, and is unchanged when
  the name was not in it).
\<close>

theorem C7_set_after_close:
  assumes "exit s" "datetime_add now expiration = Inr date_time"
  shows "set_cache endpoint data checksum expiration json_data now s =
           Inr (s\<lparr>busy_tasks := remove1 (''set.'' @ endpoint) (busy_tasks s @ [''set.'' @ endpoint])\<rparr>)
         \<and> length (remove1 (''set.'' @ endpoint) (busy_tasks s @ [''set.'' @ endpoint]))
             = length (busy_tasks s)
         \<and> (''set.'' @ endpoint \<notin> set (busy_tasks s) \<longrightarrow>
              remove1 (''set.'' @ endpoint) (busy_tasks s @ [''set.'' @ endpoint]) = busy_tasks s)"
proof -
  obtain cs where "get_checksum (global_checksum s) checksum = Inr cs"
    using get_checksum_total by blast
  then show ?thesis using assms
    by (auto simp: set_cache_def Let_def list_remove_def length_remove1 remove1_append
          dest: length_pos_if_in_set)
qed

theorem C7_set_after_close_witness:
  "set_cache ''k'' (PInt 7) ''v1'' 1000000 False 5000000 (example_engine\<lparr>exit := True\<rparr>)
     = Inr (example_engine\<lparr>exit := True\<rparr>)"
  using C7_set_after_close [of "example_engine\<lparr>exit := True\<rparr>" 5000000 1000000 6000000
      "''k''" "PInt 7" "''v1''" False]
  by (simp add: example_engine_def datetime_add_def datetime_min_def datetime_max_def)

subsection \<open>\<open>close\<close> and \<open>__del__\<close>\<close>

lemma close_wait_never:
  assumes "close_wait s = Some y"
  shows "\<not> (busy_tasks s \<noteq> [] \<and> monitor s \<and> (\<forall>a \<in> set (aborts s). \<not> a))"
proof (rule close_wait.raw_induct
    [where P = "\<lambda>s y. \<not> (busy_tasks s \<noteq> [] \<and> monitor s \<and> (\<forall>a \<in> set (aborts s). \<not> a))",
      OF _ assms])
  fix f s y
  assume IH: "\<And>x y. f x = Some y \<Longrightarrow>
                \<not> (busy_tasks x \<noteq> [] \<and> monitor x \<and> (\<forall>a \<in> set (aborts x). \<not> a))"
    and body: "(if busy_tasks s \<noteq> [] then
                  (case abortRequested s of
                     Inl e \<Rightarrow> Some (Inl e)
                   | Inr (abort, s1) \<Rightarrow>
                       if abort then Some (Inr s1) else f (emit (Sleep 25) s1))
                else Some (Inr s)) = Some y"
  show "\<not> (busy_tasks s \<noteq> [] \<and> monitor s \<and> (\<forall>a \<in> set (aborts s). \<not> a))"
  proof
    assume inv: "busy_tasks s \<noteq> [] \<and> monitor s \<and> (\<forall>a \<in> set (aborts s). \<not> a)"
    let ?s1 = "emit (Sleep 25) (s\<lparr>aborts := tl (aborts s)\<rparr>)"
    have ab: "abortRequested s = Inr (False, s\<lparr>aborts := tl (aborts s)\<rparr>)"
      using inv by (cases "aborts s") (auto simp: abortRequested_def)
    have "f ?s1 = Some y"
      using body inv ab by simp
    moreover have "busy_tasks ?s1 \<noteq> [] \<and> monitor ?s1 \<and> (\<forall>a \<in> set (aborts ?s1). \<not> a)"
      using inv by (cases "aborts s") (auto simp: emit_def)
    ultimately show False using IH by blast
  qed
qed

lemma close_wait_diverges:
  "busy_tasks s \<noteq> [] \<Longrightarrow> monitor s \<Longrightarrow> \<forall>a \<in> set (aborts s). \<not> a \<Longrightarrow> close_wait s = None"
  using close_wait_never [of s] by (cases "close_wait s") auto

lemma close_wait_abort:
  "busy_tasks s \<noteq> [] \<Longrightarrow> monitor s \<Longrightarrow> aborts s = replicate n False @ True # rest \<Longrightarrow>
   close_wait s = Some (Inr (s\<lparr>aborts := rest, events := events s @ replicate n (Sleep 25)\<rparr>))"
proof (induction n arbitrary: s)
  case 0
  then show ?case
    by (subst close_wait.simps) (simp add: abortRequested_def)
next
  case (Suc n)
  let ?s1 = "emit (Sleep 25) (s\<lparr>aborts := replicate n False @ True # rest\<rparr>)"
  have "close_wait s = close_wait ?s1"
    using Suc.prems by (subst close_wait.simps) (simp add: abortRequested_def)
  also have "\<dots> = Some (Inr (?s1\<lparr>aborts := rest, events := events ?s1 @ replicate n (Sleep 25)\<rparr>))"
    using Suc.prems by (intro Suc.IH) (simp_all add: emit_def)
  finally show ?case by (simp add: emit_def replicate_app_Cons_same)
qed

lemma close_wait_idle: "busy_tasks s = [] \<Longrightarrow> close_wait s = Some (Inr s)"
  by (subst close_wait.simps) simp

lemma close_wait_fields:
  assumes "close_wait s = Some y"
  shows "\<forall>s1. y = Inr s1 \<longrightarrow> same_engine s s1"
proof (rule close_wait.raw_induct [where P = "\<lambda>s y. \<forall>s1. y = Inr s1 \<longrightarrow> same_engine s s1", OF _ assms])
  fix f s y
  assume IH: "\<And>x y. f x = Some y \<Longrightarrow> \<forall>s1. y = Inr s1 \<longrightarrow> same_engine x s1"
    and body: "(if busy_tasks s \<noteq> [] then
                  (case abortRequested s of
                     Inl e \<Rightarrow> Some (Inl e)
                   | Inr (abort, s1) \<Rightarrow>
                       if abort then Some (Inr s1) else f (emit (Sleep 25) s1))
                else Some (Inr s)) = Some y"
  show "\<forall>s1. y = Inr s1 \<longrightarrow> same_engine s s1"
  proof (cases "busy_tasks s = []")
    case True
    then show ?thesis using body by (auto simp: same_engine_def)
  next
    case False
    show ?thesis
    proof (cases "abortRequested s")
      case (Inl e)
      then show ?thesis using body False by auto
    next
      case (Inr p)
      obtain a s1 where p: "p = (a, s1)" by (cases p)
      note g = abortRequested_cases [OF Inr [unfolded p]]
      show ?thesis
      proof (cases a)
        case True
        then show ?thesis using body False Inr p g by (auto simp: same_engine_def)
      next
        case na: False
        then have "f (emit (Sleep 25) s1) = Some y"
          using body False Inr p by simp
        then have "\<forall>s2. y = Inr s2 \<longrightarrow> same_engine (emit (Sleep 25) s1) s2"
          by (rule IH)
        then show ?thesis using g by (simp add: emit_def same_engine_def)
      qed
    qed
  qed
qed

lemma closed_fields:
  assumes "close s = Some (Inr s1)"
  shows "exit s1 \<and> \<not> database s1 \<and> \<not> win s1 \<and> \<not> monitor s1"
proof -
  obtain s0 where w: "close_wait (s\<lparr>exit := True\<rparr>) = Some (Inr s0)"
    and d: "del_attrs (close_database s0) = Inr s1"
    using assms by (auto simp: close_def split: option.splits sum.splits)
  have "exit s0" using close_wait_fields [OF w] by (simp add: same_engine_def)
  then show ?thesis
    using d by (auto simp: del_attrs_def close_database_def log_msg_def emit_def split: if_splits)
qed

lemma second_close:
  assumes "close s = Some (Inr s1)"
  shows "close s1 = Some (Inl AttributeError)"
proof -
  note c = closed_fields [OF assms]
  show ?thesis
  proof (cases "busy_tasks s1 = []")
    case True
    then show ?thesis using c
      by (simp add: close_def close_wait_idle del_attrs_def close_database_def)
  next
    case False
    then have "close_wait (s1\<lparr>exit := True\<rparr>) = Some (Inl AttributeError)"
      using c by (subst close_wait.simps) (simp add: abortRequested_def)
    then show ?thesis by (simp add: close_def)
  qed
qed

lemma close_example: "close (example_engine\<lparr>database := True\<rparr>) = Some (Inr closed_engine)"
  by (simp add: close_def close_wait_idle example_engine_def closed_engine_def close_database_def
        del_attrs_def log_msg_def emit_def)

text \<open>
  Claim C5, evaluated on the code: \<open>close\<close> is not idempotent.  Whenever a first
  call of \<open>close\<close> completes, the engine is closed (the cancellation flag is set,
  the connection is released, the window and the monitor are unbound), and a second
  call of \<open>close\<close> on that engine raises \<open>AttributeError\<close>: the first call
  deleted the instance attributes, so the test of the abort signal (when tasks are
  still busy) or \<open>del self._win\<close> fails.  The claim says that the second call
  succeeds without raising.
\<close>

theorem C5_second_close_raises:
  "close s = Some (Inr s1) \<Longrightarrow>
     exit s1 \<and> \<not> database s1 \<and> \<not> win s1 \<and> \<not> monitor s1
     \<and> close s1 = Some (Inl AttributeError)"
  using closed_fields [of s s1] second_close [of s s1] by simp

theorem C5_second_close_raises_witness:
  "close (example_engine\<lparr>database := True\<rparr>) = Some (Inr closed_engine)
   \<and> exit closed_engine \<and> \<not> database closed_engine
   \<and> close closed_engine = Some (Inl AttributeError)"
  using close_example C5_second_close_raises [OF close_example] by simp

subsection \<open>The cleanup sweep\<close>

text \<open>
  Claim C6, evaluated on the code: when the abort signal fires while the sweep walks
  over the rows, \<open>_do_cleanup\<close> returns with the marker \<open>simplecachecleanbusy\<close> still
  set to \<open>busy\<close> (and with its entry still in the busy-task list); the claim says the
  marker is cleared.
\<close>

theorem C6_marker_left_set:
  "do_cleanup 50000000 ''datetime.datetime(1970, 1, 1, 0, 0, 50)'' aborted_sweep =
     Inr (example_engine
           \<lparr>database := True,
            busy_tasks := [''simplecache''],
            properties := [''simplecachecleanbusy'' \<mapsto> ''busy''],
            table := [(''k'', 10, ''1'', 0)],
            events := [Log LOGDEBUG ''Skin Helper Simplecache --> Running cleanup...'',
                       Execute SelectAll, Commit]\<rparr>)"
  by (simp add: aborted_sweep_def example_engine_def do_cleanup_def abortRequested_def Let_def
        log_msg_def emit_def getProperty_def setProperty_def this_module_def get_timestamp_def
        execute_sql_def get_database_def execute_loop.simps attempt_def)


theorem C6_marker_left_set_witness:
  "\<exists>s'. do_cleanup 50000000 ''datetime.datetime(1970, 1, 1, 0, 0, 50)'' aborted_sweep = Inr s'
        \<and> getProperty s' ''simplecachecleanbusy'' = ''busy''"
  using C6_marker_left_set by (simp add: getProperty_def)


lemma cleanup_rows_keeps:
  "cleanup_rows ts rows s = Inr (b, s') \<Longrightarrow> busy_tasks s' = busy_tasks s"
proof (induction ts rows s rule: cleanup_rows.induct)
  case (1 ts s)
  then show ?case by simp
next
  case (2 ts cache_id cache_expires data checksum rest s)
  show ?case
  proof (cases "exit s")
    case True
    then show ?thesis using "2.prems" by simp
  next
    case ne: False
    show ?thesis
    proof (cases "abortRequested s")
      case (Inl e)
      then show ?thesis using "2.prems" ne by simp
    next
      case (Inr p)
      obtain a s1 where p: "p = (a, s1)" by (cases p)
      note ab = Inr [unfolded p]
      note f1 = abortRequested_cases [OF ab]
      have c: "(if exit s then Inr (True, s) else abortRequested s) = Inr (a, s1)"
        using ne ab by simp
      show ?thesis
      proof (cases "a \<or> \<not> win s1")
        case True
        then show ?thesis using "2.prems" ne ab f1 by (auto split: if_splits)
      next
        case go: False
        let ?s2 = "clearProperty cache_id s1"
        show ?thesis
        proof (cases "cache_expires < ts")
          case False
          then have "cleanup_rows ts rest ?s2 = Inr (b, s')"
            using "2.prems" ne ab go by (simp add: Let_def)
          from "2.IH"(2) [OF c refl _ _ refl False this] go
          show ?thesis using f1 by (simp add: clearProperty_def)
        next
          case True
          obtain c s3 where ex: "execute_sql (Delete cache_id) ?s2 = Inr (c, s3)"
            using "2.prems" ne ab go True by (auto simp: Let_def split: sum.splits)
          let ?s4 = "log_msg (''delete from db '' @ cache_id) LOGDEBUG s3"
          have "cleanup_rows ts rest ?s4 = Inr (b, s')"
            using "2.prems" ne ab go True ex by (simp add: Let_def)
          from "2.IH"(1) [OF c refl _ _ refl True ex refl this] go
          show ?thesis using f1 execute_sql_keeps [OF ex]
            by (simp add: clearProperty_def log_msg_def emit_def same_host_def)
        qed
      qed
    qed
  qed
qed

text \<open>
  Claim C8.  When \<open>_do_cleanup\<close> returns because the marker is already set, or
  because the loop over the rows left by its \<open>return\<close>, the busy-task list has one
  entry more than before, the name of the module.  A \<open>close\<close> on a state whose
  busy-task list is not empty sleeps until the abort signal fires: it returns after
  exactly as many sleeps as there are negative answers before the first positive
  one, and it never returns if the signal never fires.
\<close>

theorem C8_busy_task_leak:
  "(\<not> exit s \<and> abortRequested s = Inr (False, s0) \<and> win s
      \<and> getProperty s ''simplecachecleanbusy'' \<noteq> [] \<longrightarrow>
      (\<exists>s'. do_cleanup now repr_cur_time s = Inr s'
            \<and> busy_tasks s' = busy_tasks s @ [this_module]))
   \<and> (\<not> exit s \<and> abortRequested s = Inr (False, s0) \<and> win s
      \<and> getProperty s ''simplecachecleanbusy'' = []
      \<and> execute_sql SelectAll
           (setProperty ''simplecachecleanbusy'' ''busy''
             (log_msg ''Running cleanup...'' LOGDEBUG
               (s0\<lparr>busy_tasks := busy_tasks s0 @ [this_module]\<rparr>))) = Inr (Some cursor, s3)
      \<and> cleanup_rows (get_timestamp now) cursor s3 = Inr (True, s4) \<longrightarrow>
      do_cleanup now repr_cur_time s = Inr s4
      \<and> busy_tasks s4 = busy_tasks s @ [this_module])
   \<and> (busy_tasks s \<noteq> [] \<and> monitor s \<and> aborts s = replicate n False @ True # rest \<longrightarrow>
      close s =
        Some (del_attrs (close_database
                (s\<lparr>exit := True, aborts := rest, events := events s @ replicate n (Sleep 25)\<rparr>))))
   \<and> (busy_tasks s \<noteq> [] \<and> monitor s \<and> (\<forall>a \<in> set (aborts s). \<not> a) \<longrightarrow> close s = None)"
proof -
  have p1: "\<exists>s'. do_cleanup now repr_cur_time s = Inr s' \<and> busy_tasks s' = busy_tasks s @ [this_module]"
    if a: "\<not> exit s \<and> abortRequested s = Inr (False, s0) \<and> win s
      \<and> getProperty s ''simplecachecleanbusy'' \<noteq> []"
  proof -
    have s0: "s0 = s\<lparr>aborts := tl (aborts s)\<rparr>"
      using a abortRequested_cases [of s False s0] by simp
    show ?thesis
      using a by (simp add: do_cleanup_def Let_def s0 log_msg_def emit_def getProperty_def)
  qed
  have p2: "do_cleanup now repr_cur_time s = Inr s4 \<and> busy_tasks s4 = busy_tasks s @ [this_module]"
    if a: "\<not> exit s \<and> abortRequested s = Inr (False, s0) \<and> win s
      \<and> getProperty s ''simplecachecleanbusy'' = []
      \<and> execute_sql SelectAll
           (setProperty ''simplecachecleanbusy'' ''busy''
             (log_msg ''Running cleanup...'' LOGDEBUG
               (s0\<lparr>busy_tasks := busy_tasks s0 @ [this_module]\<rparr>))) = Inr (Some cursor, s3)
      \<and> cleanup_rows (get_timestamp now) cursor s3 = Inr (True, s4)"
  proof -
    have s0: "s0 = s\<lparr>aborts := tl (aborts s)\<rparr>"
      using a abortRequested_cases [of s False s0] by simp
    let ?s2 = "setProperty ''simplecachecleanbusy'' ''busy''
             (log_msg ''Running cleanup...'' LOGDEBUG
               (s0\<lparr>busy_tasks := busy_tasks s0 @ [this_module]\<rparr>))"
    have "execute_sql SelectAll ?s2 = Inr (Some cursor, s3)" using a by simp
    from execute_sql_keeps [OF this]
    have "busy_tasks s3 = busy_tasks s @ [this_module]"
      by (simp add: s0 setProperty_def log_msg_def emit_def same_host_def)
    then have b: "busy_tasks s4 = busy_tasks s @ [this_module]"
      using a cleanup_rows_keeps [of "get_timestamp now" cursor s3 True s4] by simp
    have "do_cleanup now repr_cur_time s = Inr s4"
      using a by (simp add: do_cleanup_def Let_def s0 log_msg_def emit_def getProperty_def
          setProperty_def)
    with b show ?thesis by simp
  qed
  have p3: "close s =
        Some (del_attrs (close_database
                (s\<lparr>exit := True, aborts := rest, events := events s @ replicate n (Sleep 25)\<rparr>)))"
    if "busy_tasks s \<noteq> [] \<and> monitor s \<and> aborts s = replicate n False @ True # rest"
    using that close_wait_abort [of "s\<lparr>exit := True\<rparr>" n rest] by (simp add: close_def)
  have p4: "close s = None"
    if "busy_tasks s \<noteq> [] \<and> monitor s \<and> (\<forall>a \<in> set (aborts s). \<not> a)"
  proof -
    have "close_wait (s\<lparr>exit := True\<rparr>) = None"
      using that by (intro close_wait_diverges) auto
    then show ?thesis by (simp add: close_def)
  qed
  show ?thesis using p1 p2 p3 p4 by blast
qed

theorem C8_busy_task_leak_witness:
  "(\<exists>s'. do_cleanup 50000000 ''now'' (example_engine\<lparr>properties := [''simplecachecleanbusy'' \<mapsto> ''busy'']\<rparr>)
           = Inr s' \<and> busy_tasks s' = [''simplecache''])
   \<and> (\<exists>s'. do_cleanup 50000000 ''now'' aborted_sweep = Inr s' \<and> busy_tasks s' = [''simplecache''])
   \<and> close (example_engine\<lparr>busy_tasks := [''simplecache''], aborts := [False, False, True]\<rparr>)
       = Some (Inr (example_engine\<lparr>busy_tasks := [''simplecache''], exit := True,
                     win := False, monitor := False,
                     events := [Sleep 25, Sleep 25, Log LOGDEBUG ''Skin Helper Simplecache --> Closed'']\<rparr>))
   \<and> close (example_engine\<lparr>busy_tasks := [''simplecache'']\<rparr>) = None"
proof -
  let ?m = "example_engine\<lparr>properties := [''simplecachecleanbusy'' \<mapsto> ''busy'']\<rparr>"
  have 1: "\<exists>s'. do_cleanup 50000000 ''now'' ?m = Inr s' \<and> busy_tasks s' = [''simplecache'']"
    using C8_busy_task_leak [where s = ?m and ?s0.0 = ?m and now = 50000000 and repr_cur_time = "''now''",
        THEN conjunct1]
    by (simp add: example_engine_def abortRequested_def getProperty_def this_module_def)
  let ?s0 = "aborted_sweep\<lparr>aborts := [False, True]\<rparr>"
  let ?s3 = "example_engine
           \<lparr>database := True,
            busy_tasks := [''simplecache''],
            properties := [''simplecachecleanbusy'' \<mapsto> ''busy''],
            table := [(''k'', 10, ''1'', 0)],
            aborts := [True],
            events := [Log LOGDEBUG ''Skin Helper Simplecache --> Running cleanup...'',
                       Execute SelectAll, Commit]\<rparr>"
  have h: "\<not> exit aborted_sweep \<and> abortRequested aborted_sweep = Inr (False, ?s0) \<and> win aborted_sweep
      \<and> getProperty aborted_sweep ''simplecachecleanbusy'' = []
      \<and> execute_sql SelectAll
           (setProperty ''simplecachecleanbusy'' ''busy''
             (log_msg ''Running cleanup...'' LOGDEBUG
               (?s0\<lparr>busy_tasks := busy_tasks ?s0 @ [this_module]\<rparr>))) = Inr (Some [(''k'', 10, ''1'', 0)], ?s3)
      \<and> cleanup_rows (get_timestamp 50000000) [(''k'', 10, ''1'', 0)] ?s3 = Inr (True, ?s3\<lparr>aborts := []\<rparr>)"
    by (simp add: aborted_sweep_def example_engine_def abortRequested_def Let_def
        log_msg_def emit_def getProperty_def setProperty_def this_module_def get_timestamp_def
        execute_sql_def get_database_def execute_loop.simps attempt_def)
  have 2: "\<exists>s'. do_cleanup 50000000 ''now'' aborted_sweep = Inr s' \<and> busy_tasks s' = [''simplecache'']"
    using C8_busy_task_leak [where s = aborted_sweep and ?s0.0 = ?s0 and now = 50000000
        and repr_cur_time = "''now''" and cursor = "[(''k'', 10, ''1'', 0)]" and ?s3.0 = ?s3
        and ?s4.0 = "?s3\<lparr>aborts := []\<rparr>", THEN conjunct2, THEN conjunct1] h
    by (simp add: this_module_def aborted_sweep_def example_engine_def)
  let ?b = "example_engine\<lparr>busy_tasks := [''simplecache''], aborts := [False, False, True]\<rparr>"
  have 3: "close ?b = Some (Inr (example_engine\<lparr>busy_tasks := [''simplecache''], exit := True,
                     win := False, monitor := False,
                     events := [Sleep 25, Sleep 25, Log LOGDEBUG ''Skin Helper Simplecache --> Closed'']\<rparr>))"
    using C8_busy_task_leak [where s = ?b and n = 2 and rest = "[]",
        THEN conjunct2, THEN conjunct2, THEN conjunct1]
    by (simp add: example_engine_def numeral_2_eq_2 close_database_def del_attrs_def log_msg_def emit_def)
  have 4: "close (example_engine\<lparr>busy_tasks := [''simplecache'']\<rparr>) = None"
    using C8_busy_task_leak [where s = "example_engine\<lparr>busy_tasks := [''simplecache'']\<rparr>",
        THEN conjunct2, THEN conjunct2, THEN conjunct2]
    by (simp add: example_engine_def)
  show ?thesis using 1 2 3 4 by blast
qed

end
